theory Spec2Isabelle
  imports Complex_Main "HOL-Library.Word" "HOL-Library.Code_Target_Numeral"
begin

section \<open>JavaScript strings\<close>

text \<open>
  A JavaScript string is a sequence of UTF-16 code units. The serializer of the server
  side inspects single code units (control characters, surrogates), so strings are
  lists of 16-bit words throughout; \<open>ascii\<close> writes a literal of the source.
\<close>

type_synonym code_unit = "16 word"

type_synonym js_string = "code_unit list"

definition ascii :: "string \<Rightarrow> js_string" where
  "ascii s = map of_char s"

section \<open>JavaScript values and JSON\<close>

subsection \<open>Values\<close>

text \<open>
  \<open>successResponse\<close> is generic in its payload and passes it to \<^verbatim>\<open>JSON.stringify\<close>, so
  the payload ranges over JavaScript values: undefined, null, booleans, numbers,
  strings, functions, symbols, arrays, and plain objects, an object being the list of
  its own enumerable string-keyed properties in the order \<^verbatim>\<open>JSON.stringify\<close> visits
  them. A function and a symbol are opaque: the serializer looks at nothing of them.
  Outside this type are the payloads on which \<^verbatim>\<open>JSON.stringify\<close> throws (BigInts, cyclic
  structures), for which no envelope is built, and objects with a \<^verbatim>\<open>toJSON\<close> method.

  A number is a binary64 value: NaN, an infinity, or \<open>Finite neg m e\<close> for the sign, the
  significand and the exponent of \<open>m * 2 ^ e\<close>. The two zeros are \<open>Finite False 0 e\<close> and
  \<open>Finite True 0 e\<close>.
\<close>

datatype js_number = NaN | PosInfinity | NegInfinity | Finite bool nat int

datatype js_value =
    JUndefined
  | JNull
  | JBoolean bool
  | JNumber js_number
  | JString js_string
  | JFunction
  | JSymbol
  | JArray "js_value list"
  | JObject "(js_string \<times> js_value) list"

subsection \<open>\<^verbatim>\<open>JSON.stringify\<close>\<close>

text \<open>
  The serializer of ECMAScript 2019 and later (well-formed \<^verbatim>\<open>JSON.stringify\<close>), called
  with a value only: no replacer, no indentation. Lead surrogates are 0xD800 to
  0xDBFF, trail surrogates 0xDC00 to 0xDFFF.
\<close>

definition is_lead :: "code_unit \<Rightarrow> bool" where
  "is_lead c = (0xD800 \<le> c \<and> c \<le> 0xDBFF)"

definition is_trail :: "code_unit \<Rightarrow> bool" where
  "is_trail c = (0xDC00 \<le> c \<and> c \<le> 0xDFFF)"

definition hex_digit :: "nat \<Rightarrow> code_unit" where
  "hex_digit d = (if d < 10 then of_nat (48 + d) else of_nat (87 + d))"

text \<open>UnicodeEscape: a backslash, \<^verbatim>\<open>u\<close> and four lower-case hexadecimal digits.\<close>

definition unicode_escape :: "code_unit \<Rightarrow> js_string" where
  "unicode_escape c =
     [0x5C, 0x75,
      hex_digit (unat c div 4096), hex_digit (unat c div 256 mod 16),
      hex_digit (unat c div 16 mod 16), hex_digit (unat c mod 16)]"

text \<open>
  One code point of QuoteJSONString that is a single code unit: the short escapes for
  backspace, tab, line feed, form feed, carriage return, the double quote and the
  backslash; a Unicode escape for the other control characters and for a surrogate
  that has no partner; the unit itself otherwise.
\<close>

definition escape_unit :: "code_unit \<Rightarrow> js_string" where
  "escape_unit c =
     (if c = 0x08 then [0x5C, 0x62]
      else if c = 0x09 then [0x5C, 0x74]
      else if c = 0x0A then [0x5C, 0x6E]
      else if c = 0x0C then [0x5C, 0x66]
      else if c = 0x0D then [0x5C, 0x72]
      else if c = 0x22 then [0x5C, 0x22]
      else if c = 0x5C then [0x5C, 0x5C]
      else if c < 0x20 \<or> is_lead c \<or> is_trail c then unicode_escape c
      else [c])"

text \<open>
  The code points of a string: a lead surrogate followed by a trail surrogate is one
  code point and is copied as it is.
\<close>

fun quote_units :: "js_string \<Rightarrow> js_string" where
  "quote_units [] = []"
| "quote_units [c] = escape_unit c"
| "quote_units (c # d # ds) =
     (if is_lead c \<and> is_trail d then c # d # quote_units ds
      else escape_unit c @ quote_units (d # ds))"

definition QuoteJSONString :: "js_string \<Rightarrow> js_string" where
  "QuoteJSONString s = 0x22 # quote_units s @ [0x22]"

text \<open>
  Number::toString. A finite Number is a binary64 value: a sign, a significand \<open>m\<close> below \<open>2 ^ 53\<close> and an
  exponent \<open>e\<close> from \<open>- 1074\<close> to \<open>971\<close>, standing for \<open>m * 2 ^ e\<close>, with the significand
  at least \<open>2 ^ 52\<close> unless the exponent is the least one. The two zeros are the
  significand 0 with either sign.
\<close>

definition is_double :: "nat \<Rightarrow> int \<Rightarrow> bool" where
  "is_double m e = (m < 2 ^ 53 \<and> - 1074 \<le> e \<and> e \<le> 971 \<and> (2 ^ 52 \<le> m \<or> e = - 1074))"

definition double_value :: "nat \<Rightarrow> int \<Rightarrow> rat" where
  "double_value m e = of_nat m * 2 powi e"

text \<open>
  The least exponent from \<open>e\<close> on, up to 971, with \<open>q < 2 ^ (e + 53)\<close>; \<open>p\<close> is
  \<open>2 ^ (e + 53)\<close>. The answer is 972 when there is none.
\<close>

function find_exponent :: "rat \<Rightarrow> int \<Rightarrow> rat \<Rightarrow> int" where
  "find_exponent q e p = (if 971 < e \<or> q < p then e else find_exponent q (e + 1) (2 * p))"
  by pat_completeness auto
termination
  by (relation "measure (\<lambda>(q, e, p). nat (972 - e))") auto

definition round_half_even :: "rat \<Rightarrow> nat" where
  "round_half_even q =
     (let f = \<lfloor>q\<rfloor>; r = q - of_int f
      in if r < 1 / 2 then nat f
         else if 1 / 2 < r then nat f + 1
         else if even f then nat f else nat f + 1)"

definition infinity :: "bool \<Rightarrow> js_number" where
  "infinity neg = (if neg then NegInfinity else PosInfinity)"

text \<open>
  The Number value of a rational that is not negative, with the sign given apart:
  round to nearest, ties to even, to infinity beyond the largest Number.
\<close>

definition round_double :: "bool \<Rightarrow> rat \<Rightarrow> js_number" where
  "round_double neg q =
     (let e = find_exponent q (- 1074) (2 powi (- 1021)) in
      if 971 < e then infinity neg
      else let m = round_half_even (q / 2 powi e) in
           if m = 2 ^ 53 then (if e = 971 then infinity neg else Finite neg (2 ^ 52) (e + 1))
           else Finite neg m e)"

fun decimal :: "nat \<Rightarrow> js_string" where
  "decimal n = (if n < 10 then [of_nat (48 + n)] else decimal (n div 10) @ [of_nat (48 + n mod 10)])"

text \<open>
  The least \<open>n\<close> from the given one on, up to 309, with \<open>q < 10 ^ n\<close>; \<open>p\<close> is \<open>10 ^ n\<close>.
\<close>

function find_decimal_exponent :: "rat \<Rightarrow> int \<Rightarrow> rat \<Rightarrow> int" where
  "find_decimal_exponent q n p =
     (if 309 < n \<or> q < p then n else find_decimal_exponent q (n + 1) (10 * p))"
  by pat_completeness auto
termination
  by (relation "measure (\<lambda>(q, n, p). nat (310 - n))") auto

text \<open>
  A decimal is a pair \<open>(s, n)\<close> of a positive integer \<open>s\<close> with \<open>k\<close> digits and a
  decimal exponent \<open>n\<close>, standing for \<open>s * 10 ^ (n - k)\<close>, as in Number::toString.
\<close>

definition decimal_value :: "nat \<times> int \<Rightarrow> rat" where
  "decimal_value c = of_nat (fst c) * 10 powi (snd c - int (length (decimal (fst c))))"

text \<open>
  The two decimals of \<open>k\<close> digits next to \<open>q\<close>, below and above. If any decimal of \<open>k\<close>
  digits has the Number value \<open>q\<close>, the one closest to \<open>q\<close> is among these two.
\<close>

definition candidates :: "rat \<Rightarrow> nat \<Rightarrow> (nat \<times> int) list" where
  "candidates q k =
     (let n = find_decimal_exponent q (- 324) (10 powi (- 324));
          lo = nat \<lfloor>q * 10 powi (int k - n)\<rfloor>
      in [(lo, n), (if lo + 1 < 10 ^ k then (lo + 1, n) else (10 ^ (k - 1), n + 1))])"

definition reads_back :: "nat \<Rightarrow> int \<Rightarrow> nat \<times> int \<Rightarrow> bool" where
  "reads_back m e c = (0 < fst c \<and> round_double False (decimal_value c) = Finite False m e)"

text \<open>Of two decimals the one closer to \<open>q\<close>, and the one with the even \<open>s\<close> at a tie.\<close>

definition closest :: "rat \<Rightarrow> (nat \<times> int) list \<Rightarrow> (nat \<times> int) option" where
  "closest q cs =
     (case cs of
        [] \<Rightarrow> None
      | [c] \<Rightarrow> Some c
      | c # d # _ \<Rightarrow>
          if \<bar>decimal_value c - q\<bar> < \<bar>decimal_value d - q\<bar> then Some c
          else if \<bar>decimal_value d - q\<bar> < \<bar>decimal_value c - q\<bar> then Some d
          else if even (fst c) then Some c else Some d)"

text \<open>
  The decimal with the fewest digits, from \<open>k\<close> digits on, whose Number value is the
  given one.
\<close>

fun shortest :: "nat \<Rightarrow> int \<Rightarrow> nat \<Rightarrow> nat \<Rightarrow> (nat \<times> int) option" where
  "shortest m e k 0 = None"
| "shortest m e k (Suc fuel) =
     (case closest (double_value m e) (filter (reads_back m e) (candidates (double_value m e) k)) of
        Some c \<Rightarrow> Some c
      | None \<Rightarrow> shortest m e (Suc k) fuel)"

text \<open>The decimal that is exactly \<open>m * 2 ^ e\<close>.\<close>

definition exact_decimal :: "nat \<Rightarrow> int \<Rightarrow> nat \<times> int" where
  "exact_decimal m e =
     (if 0 \<le> e then (m * 2 ^ nat e, int (length (decimal (m * 2 ^ nat e))))
      else (m * 5 ^ nat (- e), int (length (decimal (m * 5 ^ nat (- e)))) + e))"

text \<open>
  The digits of Number::toString: the shortest decimal that reads back as the Number.
  Seventeen digits are always enough; the exact decimal stands behind them so that
  the function is total without that fact.
\<close>

definition digits_of_double :: "nat \<Rightarrow> int \<Rightarrow> nat \<times> int" where
  "digits_of_double m e =
     (case shortest m e 1 17 of Some c \<Rightarrow> c | None \<Rightarrow> exact_decimal m e)"

text \<open>
  The text of a decimal in Number::toString: digits and zeros, digits with a point,
  a zero, a point, zeros and digits, or the exponent form.
\<close>

definition format_decimal :: "nat \<Rightarrow> int \<Rightarrow> js_string" where
  "format_decimal s n =
     (let ds = decimal s; k = int (length ds) in
      if k \<le> n \<and> n \<le> 21 then ds @ replicate (nat (n - k)) 0x30
      else if 0 < n \<and> n \<le> 21 then take (nat n) ds @ 0x2E # drop (nat n) ds
      else if - 6 < n \<and> n \<le> 0 then 0x30 # 0x2E # replicate (nat (- n)) 0x30 @ ds
      else (if k = 1 then ds else hd ds # 0x2E # tl ds)
           @ 0x65 # (if n - 1 < 0 then 0x2D else 0x2B) # decimal (nat \<bar>n - 1\<bar>))"

text \<open>Number::toString; both zeros are written \<^verbatim>\<open>0\<close>.\<close>

definition number_to_string :: "js_number \<Rightarrow> js_string" where
  "number_to_string x =
     (case x of
        NaN \<Rightarrow> ascii ''NaN''
      | PosInfinity \<Rightarrow> ascii ''Infinity''
      | NegInfinity \<Rightarrow> ascii ''-Infinity''
      | Finite neg m e \<Rightarrow>
          if m = 0 then ascii ''0''
          else (if neg then [0x2D] else [])
               @ format_decimal (fst (digits_of_double m e)) (snd (digits_of_double m e)))"

fun join_comma :: "js_string list \<Rightarrow> js_string" where
  "join_comma [] = []"
| "join_comma [t] = t"
| "join_comma (t # u # ts) = t @ 0x2C # join_comma (u # ts)"

text \<open>
  SerializeJSONProperty, with \<open>None\<close> for its result undefined, which is the result
  for undefined, a function and a symbol. In an array an element without a
  serialization is written \<^verbatim>\<open>null\<close>; in an object such a property is left out. A
  number that is not finite is written \<^verbatim>\<open>null\<close>.
\<close>

fun serialize :: "js_value \<Rightarrow> js_string option"
  and serialize_elements :: "js_value list \<Rightarrow> js_string list"
  and serialize_members :: "(js_string \<times> js_value) list \<Rightarrow> js_string list" where
  "serialize JUndefined = None"
| "serialize JNull = Some (ascii ''null'')"
| "serialize (JBoolean b) = Some (if b then ascii ''true'' else ascii ''false'')"
| "serialize (JNumber n) =
     Some (case n of Finite neg m e \<Rightarrow> number_to_string n | _ \<Rightarrow> ascii ''null'')"
| "serialize (JString s) = Some (QuoteJSONString s)"
| "serialize JFunction = None"
| "serialize JSymbol = None"
| "serialize (JArray vs) = Some (0x5B # join_comma (serialize_elements vs) @ [0x5D])"
| "serialize (JObject ps) = Some (0x7B # join_comma (serialize_members ps) @ [0x7D])"
| "serialize_elements [] = []"
| "serialize_elements (v # vs) =
     (case serialize v of None \<Rightarrow> ascii ''null'' | Some t \<Rightarrow> t) # serialize_elements vs"
| "serialize_members [] = []"
| "serialize_members ((k, v) # ps) =
     (case serialize v of
        None \<Rightarrow> serialize_members ps
      | Some t \<Rightarrow> (QuoteJSONString k @ 0x3A # t) # serialize_members ps)"

text \<open>\<^verbatim>\<open>JSON.stringify(value)\<close> with no replacer and no indentation.\<close>

definition JSON_stringify :: "js_value \<Rightarrow> js_string option" where
  "JSON_stringify v = serialize v"

subsection \<open>\<^verbatim>\<open>JSON.parse\<close>\<close>

text \<open>
  The JSON grammar, read left to right; \<open>None\<close> is the SyntaxError. White space is a
  space, a tab, a line feed or a carriage return.
\<close>

definition is_ws :: "code_unit \<Rightarrow> bool" where
  "is_ws c = (c = 0x20 \<or> c = 0x09 \<or> c = 0x0A \<or> c = 0x0D)"

definition skip_ws :: "js_string \<Rightarrow> js_string" where
  "skip_ws s = dropWhile is_ws s"

definition hex_value :: "code_unit \<Rightarrow> nat option" where
  "hex_value c =
     (if 0x30 \<le> c \<and> c \<le> 0x39 then Some (unat c - 48)
      else if 0x61 \<le> c \<and> c \<le> 0x66 then Some (unat c - 87)
      else if 0x41 \<le> c \<and> c \<le> 0x46 then Some (unat c - 55)
      else None)"

definition hex4 :: "code_unit \<Rightarrow> code_unit \<Rightarrow> code_unit \<Rightarrow> code_unit \<Rightarrow> code_unit option" where
  "hex4 h1 h2 h3 h4 =
     (case (hex_value h1, hex_value h2, hex_value h3, hex_value h4) of
        (Some a, Some b, Some c, Some d) \<Rightarrow> Some (of_nat (((a * 16 + b) * 16 + c) * 16 + d))
      | _ \<Rightarrow> None)"

text \<open>The character after a backslash, other than \<^verbatim>\<open>u\<close>.\<close>

definition unescape :: "code_unit \<Rightarrow> code_unit option" where
  "unescape e =
     (if e = 0x22 then Some 0x22
      else if e = 0x5C then Some 0x5C
      else if e = 0x2F then Some 0x2F
      else if e = 0x62 then Some 0x08
      else if e = 0x66 then Some 0x0C
      else if e = 0x6E then Some 0x0A
      else if e = 0x72 then Some 0x0D
      else if e = 0x74 then Some 0x09
      else None)"

definition cons_result :: "'a \<Rightarrow> ('a list \<times> 'b) option \<Rightarrow> ('a list \<times> 'b) option" where
  "cons_result x r = (case r of None \<Rightarrow> None | Some (xs, rest) \<Rightarrow> Some (x # xs, rest))"

text \<open>
  The characters of a string after its opening quote, up to the closing quote. A
  control character below 0x20 may not stand unescaped.
\<close>

fun parse_chars :: "js_string \<Rightarrow> (js_string \<times> js_string) option" where
  "parse_chars [] = None"
| "parse_chars (c # cs) =
     (if c = 0x22 then Some ([], cs)
      else if c = 0x5C then
        (case cs of
           [] \<Rightarrow> None
         | e # r \<Rightarrow>
             if e = 0x75 then
               (case r of
                  h1 # h2 # h3 # h4 # r' \<Rightarrow>
                    (case hex4 h1 h2 h3 h4 of
                       None \<Rightarrow> None
                     | Some u \<Rightarrow> cons_result u (parse_chars r'))
                | _ \<Rightarrow> None)
             else
               (case unescape e of
                  None \<Rightarrow> None
                | Some u \<Rightarrow> cons_result u (parse_chars r)))
      else if c < 0x20 then None
      else cons_result c (parse_chars cs))"

definition is_digit :: "code_unit \<Rightarrow> bool" where
  "is_digit c = (0x30 \<le> c \<and> c \<le> 0x39)"

definition digits_value :: "js_string \<Rightarrow> nat" where
  "digits_value ds = foldl (\<lambda>a c. 10 * a + (unat c - 48)) 0 ds"

text \<open>The fraction of a number, if there is one: a point and at least one digit.\<close>

definition parse_fraction :: "js_string \<Rightarrow> (js_string \<times> js_string) option" where
  "parse_fraction s =
     (if s \<noteq> [] \<and> hd s = 0x2E then
        (if takeWhile is_digit (tl s) = [] then None
         else Some (takeWhile is_digit (tl s), dropWhile is_digit (tl s)))
      else Some ([], s))"

text \<open>
  The exponent of a number, if there is one: \<^verbatim>\<open>e\<close> or \<^verbatim>\<open>E\<close>, an optional sign and at
  least one digit.
\<close>

definition parse_exponent :: "js_string \<Rightarrow> (int \<times> js_string) option" where
  "parse_exponent s =
     (if s \<noteq> [] \<and> (hd s = 0x65 \<or> hd s = 0x45) then
        (let neg = (tl s \<noteq> [] \<and> hd (tl s) = 0x2D);
             s1 = (if tl s \<noteq> [] \<and> (hd (tl s) = 0x2D \<or> hd (tl s) = 0x2B) then tl (tl s) else tl s)
         in if takeWhile is_digit s1 = [] then None
            else Some (if neg then - int (digits_value (takeWhile is_digit s1))
                       else int (digits_value (takeWhile is_digit s1)),
                       dropWhile is_digit s1))
      else Some (0, s))"

text \<open>
  A JSON number: an optional minus sign, the digits of the integer part with no
  leading zero before another digit, an optional fraction and an optional exponent.
  Its value is the Number value of the decimal it writes (StringToNumber).
\<close>

definition parse_unsigned :: "bool \<Rightarrow> js_string \<Rightarrow> (js_number \<times> js_string) option" where
  "parse_unsigned neg s =
     (let ds = takeWhile is_digit s
      in if ds = [] \<or> (hd ds = 0x30 \<and> 1 < length ds) then None
         else
           (case parse_fraction (dropWhile is_digit s) of
              None \<Rightarrow> None
            | Some (fs, r) \<Rightarrow>
                (case parse_exponent r of
                   None \<Rightarrow> None
                 | Some (x, rest) \<Rightarrow>
                     Some (round_double neg
                             (of_nat (digits_value (ds @ fs)) * 10 powi (x - int (length fs))),
                           rest))))"

definition parse_number :: "js_string \<Rightarrow> (js_number \<times> js_string) option" where
  "parse_number s =
     (if s \<noteq> [] \<and> hd s = 0x2D then parse_unsigned True (tl s) else parse_unsigned False s)"

text \<open>
  An object is built member by member with CreateDataProperty: a key seen before keeps
  its place and takes the later value, a new key goes to the end. (JavaScript lists the
  keys that are array indices before the others; the serializer visits the properties in
  that order, so in a text it wrote the members stand in that order already.)
\<close>

fun define_property ::
  "(js_string \<times> js_value) list \<Rightarrow> js_string \<Rightarrow> js_value \<Rightarrow> (js_string \<times> js_value) list" where
  "define_property [] k v = [(k, v)]"
| "define_property ((k', v') # ps) k v =
     (if k' = k then (k, v) # ps else (k', v') # define_property ps k v)"

definition object_of_members :: "(js_string \<times> js_value) list \<Rightarrow> (js_string \<times> js_value) list" where
  "object_of_members ms = foldl (\<lambda>obj m. define_property obj (fst m) (snd m)) [] ms"

text \<open>
  The value at the head of the text and the text after it. The first argument bounds
  the depth of the calls: a value, a list of elements or a list of members whose text
  has at most \<open>n\<close> characters is read with the bound \<open>n\<close>, so \<open>JSON_parse\<close> passes the
  length of the whole text. That this bound is enough for every text the serializer
  writes is part of the lemmas below.
\<close>

fun parse_value :: "nat \<Rightarrow> js_string \<Rightarrow> (js_value \<times> js_string) option"
  and parse_elements :: "nat \<Rightarrow> js_string \<Rightarrow> (js_value list \<times> js_string) option"
  and parse_members :: "nat \<Rightarrow> js_string \<Rightarrow> ((js_string \<times> js_value) list \<times> js_string) option"
  where
  "parse_value 0 s = None"
| "parse_value (Suc n) s =
     (case s of
        [] \<Rightarrow> None
      | c # cs \<Rightarrow>
          if c = 0x5B then
            (case skip_ws cs of
               [] \<Rightarrow> None
             | d # r \<Rightarrow>
                 if d = 0x5D then Some (JArray [], r)
                 else (case parse_elements n (d # r) of
                         None \<Rightarrow> None
                       | Some (vs, r') \<Rightarrow> Some (JArray vs, r')))
          else if c = 0x7B then
            (case skip_ws cs of
               [] \<Rightarrow> None
             | d # r \<Rightarrow>
                 if d = 0x7D then Some (JObject [], r)
                 else (case parse_members n (d # r) of
                         None \<Rightarrow> None
                       | Some (ms, r') \<Rightarrow> Some (JObject (object_of_members ms), r')))
          else if c = 0x22 then
            (case parse_chars cs of
               None \<Rightarrow> None
             | Some (str, r) \<Rightarrow> Some (JString str, r))
          else if take 4 s = ascii ''null'' then Some (JNull, drop 4 s)
          else if take 4 s = ascii ''true'' then Some (JBoolean True, drop 4 s)
          else if take 5 s = ascii ''false'' then Some (JBoolean False, drop 5 s)
          else
            (case parse_number s of
               None \<Rightarrow> None
             | Some (x, r) \<Rightarrow> Some (JNumber x, r)))"
| "parse_elements 0 s = None"
| "parse_elements (Suc n) s =
     (case parse_value n s of
        None \<Rightarrow> None
      | Some (v, r) \<Rightarrow>
          (case skip_ws r of
             [] \<Rightarrow> None
           | d # r' \<Rightarrow>
               if d = 0x2C then cons_result v (parse_elements n (skip_ws r'))
               else if d = 0x5D then Some ([v], r')
               else None))"
| "parse_members 0 s = None"
| "parse_members (Suc n) s =
     (case s of
        [] \<Rightarrow> None
      | q # s1 \<Rightarrow>
          if q \<noteq> 0x22 then None
          else
            (case parse_chars s1 of
               None \<Rightarrow> None
             | Some (k, s2) \<Rightarrow>
                 (case skip_ws s2 of
                    [] \<Rightarrow> None
                  | colon # s3 \<Rightarrow>
                      if colon \<noteq> 0x3A then None
                      else
                        (case parse_value n (skip_ws s3) of
                           None \<Rightarrow> None
                         | Some (v, s4) \<Rightarrow>
                             (case skip_ws s4 of
                                [] \<Rightarrow> None
                              | d # s5 \<Rightarrow>
                                  if d = 0x2C then cons_result (k, v) (parse_members n (skip_ws s5))
                                  else if d = 0x7D then Some ([(k, v)], s5)
                                  else None)))))"

text \<open>
  Where the text of a value inside a JSON text can end: at the end of the text, or
  before a comma, a closing bracket or a closing brace.
\<close>

definition delimited :: "js_string \<Rightarrow> bool" where
  "delimited rest = (rest = [] \<or> hd rest = 0x2C \<or> hd rest = 0x5D \<or> hd rest = 0x7D)"

text \<open>
  The text \<open>t\<close> is read as the value \<open>v\<close> wherever a value may stand: before
  any delimited rest, and with any bound that is at least its length.
\<close>

definition reads_as :: "js_string \<Rightarrow> js_value \<Rightarrow> bool" where
  "reads_as t v =
     (\<forall>k rest. length t \<le> k \<and> delimited rest \<longrightarrow> parse_value k (t @ rest) = Some (v, rest))"

text \<open>
  \<^verbatim>\<open>JSON.parse(text)\<close> with no reviver: one value between optional white space and
  nothing after it.
\<close>

definition JSON_parse :: "js_string \<Rightarrow> js_value option" where
  "JSON_parse text =
     (case parse_value (length text) (skip_ws text) of
        None \<Rightarrow> None
      | Some (v, rest) \<Rightarrow> if skip_ws rest = [] then Some v else None)"

subsection \<open>Values that are represented, values that JSON keeps\<close>

text \<open>
  A value of the type stands for a JavaScript value when its finite numbers are
  binary64 values and no object lists a key twice.
\<close>

fun wf_value :: "js_value \<Rightarrow> bool"
  and wf_elements :: "js_value list \<Rightarrow> bool"
  and wf_members :: "(js_string \<times> js_value) list \<Rightarrow> bool" where
  "wf_value JUndefined = True"
| "wf_value JNull = True"
| "wf_value (JBoolean b) = True"
| "wf_value (JNumber n) = (case n of Finite neg m e \<Rightarrow> is_double m e | _ \<Rightarrow> True)"
| "wf_value (JString s) = True"
| "wf_value JFunction = True"
| "wf_value JSymbol = True"
| "wf_value (JArray vs) = wf_elements vs"
| "wf_value (JObject ps) = (distinct (map fst ps) \<and> wf_members ps)"
| "wf_elements [] = True"
| "wf_elements (v # vs) = (wf_value v \<and> wf_elements vs)"
| "wf_members [] = True"
| "wf_members ((k, v) # ps) = (wf_value v \<and> wf_members ps)"

text \<open>The values for which SerializeJSONProperty answers undefined.\<close>

definition omitted :: "js_value \<Rightarrow> bool" where
  "omitted v = (v = JUndefined \<or> v = JFunction \<or> v = JSymbol)"

text \<open>
  JSON data: null, booleans, finite numbers other than negative zero, strings, and
  arrays and objects of JSON data. Undefined, functions, symbols, NaN, the infinities
  and negative zero are not JSON data, at any depth.
\<close>

fun json_safe :: "js_value \<Rightarrow> bool"
  and json_safe_elements :: "js_value list \<Rightarrow> bool"
  and json_safe_members :: "(js_string \<times> js_value) list \<Rightarrow> bool" where
  "json_safe JUndefined = False"
| "json_safe JNull = True"
| "json_safe (JBoolean b) = True"
| "json_safe (JNumber n) = (case n of Finite neg m e \<Rightarrow> \<not> (neg \<and> m = 0) | _ \<Rightarrow> False)"
| "json_safe (JString s) = True"
| "json_safe JFunction = False"
| "json_safe JSymbol = False"
| "json_safe (JArray vs) = json_safe_elements vs"
| "json_safe (JObject ps) = json_safe_members ps"
| "json_safe_elements [] = True"
| "json_safe_elements (v # vs) = (json_safe v \<and> json_safe_elements vs)"
| "json_safe_members [] = True"
| "json_safe_members ((k, v) # ps) = (json_safe v \<and> json_safe_members ps)"

text \<open>
  What is left of a value in its JSON text: a number that is not finite and an array
  element that is undefined, a function or a symbol have become null, a property with
  such a value is gone, and negative zero has become zero.
\<close>

fun json_image :: "js_value \<Rightarrow> js_value"
  and json_image_elements :: "js_value list \<Rightarrow> js_value list"
  and json_image_members :: "(js_string \<times> js_value) list \<Rightarrow> (js_string \<times> js_value) list" where
  "json_image JUndefined = JUndefined"
| "json_image JNull = JNull"
| "json_image (JBoolean b) = JBoolean b"
| "json_image (JNumber n) =
     (case n of
        Finite neg m e \<Rightarrow> JNumber (Finite (neg \<and> m \<noteq> 0) m e)
      | _ \<Rightarrow> JNull)"
| "json_image (JString s) = JString s"
| "json_image JFunction = JFunction"
| "json_image JSymbol = JSymbol"
| "json_image (JArray vs) = JArray (json_image_elements vs)"
| "json_image (JObject ps) = JObject (json_image_members ps)"
| "json_image_elements [] = []"
| "json_image_elements (v # vs) =
     (if omitted v then JNull else json_image v) # json_image_elements vs"
| "json_image_members [] = []"
| "json_image_members ((k, v) # ps) =
     (if omitted v then json_image_members ps
      else (k, json_image v) # json_image_members ps)"

section \<open>The response envelope builder (backend)\<close>

subsection \<open>Configuration (backend/src/config/index.ts)\<close>

text \<open>
  \<^verbatim>\<open>process.env\<close> maps names to strings; reading a name that is not set gives
  undefined. The \<^verbatim>\<open>!\<close> after \<^verbatim>\<open>process.env.ALLOWED_ORIGIN\<close> is a type assertion of
  TypeScript and is erased by the compiler: no check is left in the program.
\<close>

type_synonym env = "js_string \<rightharpoonup> js_string"

definition corsOption :: "env \<Rightarrow> (js_string \<times> js_value) list" where
  "corsOption env =
     [(ascii ''Access-Control-Allow-Origin'',
         (case env (ascii ''ALLOWED_ORIGIN'') of None \<Rightarrow> JUndefined | Some v \<Rightarrow> JString v)),
      (ascii ''Access-Control-Allow-Credentials'', JBoolean False),
      (ascii ''Access-Control-Allow-Headers'', JString (ascii ''Content-Type, Authorization'')),
      (ascii ''Access-Control-Allow-Methods'', JString (ascii ''GET, POST, PUT, DELETE, OPTIONS'')),
      (ascii ''Content-Type'', JString (ascii ''application/json''))]"

text \<open>
  Evaluating the module: its one statement builds the object and exports it. \<open>Inl\<close>
  would be an exception thrown while the module is loaded.
\<close>

datatype startup_error = StartupError

definition config_module :: "env \<Rightarrow> startup_error + (js_string \<times> js_value) list" where
  "config_module env = Inr (corsOption env)"

subsection \<open>successResponse and errorResponse (unnamed/part_000)\<close>

text \<open>
  The result type of the gateway. \<open>body\<close> is what \<^verbatim>\<open>JSON.stringify\<close> returned, undefined
  (\<open>None\<close>) included. A status argument that is left out is \<open>None\<close> and takes the
  default of the parameter. \<open>corsOption\<close> is the binding imported from the configuration
  module, built once from the environment the process started with.
\<close>

record proxy_result =
  statusCode :: int
  headers :: "(js_string \<times> js_value) list"
  body :: "js_string option"

definition successResponse :: "env \<Rightarrow> js_value \<Rightarrow> int option \<Rightarrow> proxy_result" where
  "successResponse env payload' statusCode' =
     \<lparr>statusCode = (case statusCode' of None \<Rightarrow> 200 | Some c \<Rightarrow> c),
      headers = corsOption env,
      body = JSON_stringify payload'\<rparr>"

definition errorResponse :: "env \<Rightarrow> js_string \<Rightarrow> js_string \<Rightarrow> int option \<Rightarrow> proxy_result" where
  "errorResponse env error message statusCode' =
     \<lparr>statusCode = (case statusCode' of None \<Rightarrow> 500 | Some c \<Rightarrow> c),
      headers = corsOption env,
      body = JSON_stringify
               (JObject [(ascii ''error'', JString error), (ascii ''message'', JString message)])\<rparr>"

text \<open>
  Deserializing the body of a result. \<^verbatim>\<open>JSON.parse(undefined)\<close> throws a SyntaxError,
  as a text that is no JSON does.
\<close>

definition deserialize_body :: "proxy_result \<Rightarrow> js_value option" where
  "deserialize_body r = (case body r of None \<Rightarrow> None | Some text \<Rightarrow> JSON_parse text)"

text \<open>
  A body is valid serialized JSON when it is a string and \<^verbatim>\<open>JSON.parse\<close> accepts it.
  The parser of this theory accepts no text that JSON does not have, so its acceptance
  is JSON validity.
\<close>

definition valid_json :: "js_string option \<Rightarrow> bool" where
  "valid_json b = (case b of None \<Rightarrow> False | Some text \<Rightarrow> JSON_parse text \<noteq> None)"

section \<open>The authenticated client (frontend/src/services/api.ts)\<close>

subsection \<open>Browser state\<close>

text \<open>
  The client touches two browser globals: \<^verbatim>\<open>localStorage\<close>, a key-value store of
  strings, and \<^verbatim>\<open>window.location.href\<close>, whose assignment starts a navigation.
  Both are fields of an explicit state. The field \<open>navigations\<close> lists the targets
  assigned to \<^verbatim>\<open>window.location.href\<close>, oldest first, and \<open>sent\<close> lists the requests
  handed to the network, oldest first, so that "no navigation" and "exactly one
  request" are statements about these lists.
\<close>

type_synonym storage = "js_string \<rightharpoonup> js_string"

definition storage_getItem :: "storage \<Rightarrow> js_string \<Rightarrow> js_string option" where
  "storage_getItem st k = st k"

definition storage_removeItem :: "storage \<Rightarrow> js_string \<Rightarrow> storage" where
  "storage_removeItem st k = st(k := None)"

datatype http_method = GET | POST | PUT | DELETE

text \<open>
  The request configuration of the library; \<open>request_method\<close> is its field
  \<^verbatim>\<open>method\<close> and \<open>payload\<close> its field \<^verbatim>\<open>data\<close>.
\<close>

record 'i request_config =
  request_method :: http_method
  url :: js_string
  headers :: "js_string \<rightharpoonup> js_string"
  payload :: "'i option"

record 'r response =
  status :: int
  data :: 'r

text \<open>
  A failure handed to the rejection handler. \<^verbatim>\<open>error.response\<close> is the response when
  the server answered and undefined when nothing was received.
\<close>

datatype 'r axios_error = AxiosError (error_response: "'r response option")

datatype 'r outcome = Fulfilled "'r response" | Rejected "'r axios_error"

record 'i browser =
  localStorage :: storage
  navigations :: "js_string list"
  sent :: "'i request_config list"

subsection \<open>The instance and its interceptors\<close>

text \<open>
  \<^verbatim>\<open>axios.create({ baseURL, headers: {'Content-Type': 'application/json'} })\<close>: every
  request of the instance starts from these headers. The six operations of
  \<open>itemService\<close> give a verb, a path and at most a payload, nothing else.
\<close>

definition api_config :: "http_method \<Rightarrow> js_string \<Rightarrow> 'i option \<Rightarrow> 'i request_config" where
  "api_config m u d =
     \<lparr>request_method = m, url = u,
      headers = [ascii ''Content-Type'' \<mapsto> ascii ''application/json''],
      payload = d\<rparr>"

text \<open>
  The condition \<^verbatim>\<open>if (token)\<close> is JavaScript truthiness of a value that is a string
  or null: it holds for a string that is not empty.
\<close>

definition truthy :: "js_string option \<Rightarrow> bool" where
  "truthy t = (case t of None \<Rightarrow> False | Some s \<Rightarrow> s \<noteq> [])"

definition request_interceptor :: "storage \<Rightarrow> 'i request_config \<Rightarrow> 'i request_config" where
  "request_interceptor st config =
     (let token = storage_getItem st (ascii ''idToken'') in
      if truthy token
      then config\<lparr>headers :=
             (headers config)(ascii ''Authorization'' \<mapsto> ascii ''Bearer '' @ the token)\<rparr>
      else config)"

definition response_fulfilled :: "'r response \<Rightarrow> 'r response" where
  "response_fulfilled response = response"

text \<open>
  \<^verbatim>\<open>error.response?.status === 401\<close> is false when \<^verbatim>\<open>error.response\<close> is undefined.
\<close>

definition is_401 :: "'r axios_error \<Rightarrow> bool" where
  "is_401 error = (map_option status (error_response error) = Some 401)"

definition response_rejected :: "'i browser \<Rightarrow> 'r axios_error \<Rightarrow> 'i browser \<times> 'r outcome" where
  "response_rejected b error =
     (let b' =
        (if is_401 error
         then b\<lparr>localStorage :=
                  storage_removeItem
                    (storage_removeItem
                      (storage_removeItem (localStorage b) (ascii ''accessToken''))
                      (ascii ''refreshToken''))
                    (ascii ''idToken''),
                navigations := navigations b @ [ascii ''/signin'']\<rparr>
         else b)
      in (b', Rejected error))"

text \<open>
  \<^verbatim>\<open>api.interceptors.response.use(onFulfilled, onRejected)\<close>: a fulfilled response goes
  through the first handler, a failure through the second.
\<close>

definition response_interceptor :: "'i browser \<Rightarrow> 'r outcome \<Rightarrow> 'i browser \<times> 'r outcome" where
  "response_interceptor b out =
     (case out of
        Fulfilled r \<Rightarrow> (b, Fulfilled (response_fulfilled r))
      | Rejected e \<Rightarrow> response_rejected b e)"

subsection \<open>Sending a request\<close>

text \<open>
  The instance is created with no \<^verbatim>\<open>validateStatus\<close>, so the library's default
  decides which responses fulfil the promise: those with
  \<^verbatim>\<open>status >= 200 && status < 300\<close>, and those whose status is 0, which the library
  does not validate. Every other response rejects it with an error that carries the
  response.
\<close>

definition settle :: "'r response \<Rightarrow> 'r outcome" where
  "settle r =
     (if status r = 0 \<or> (200 \<le> status r \<and> status r < 300) then Fulfilled r
      else Rejected (AxiosError (Some r)))"

text \<open>
  One request through the instance: the request interceptor, the network, the response
  interceptor. The server is a function from the request that leaves the client to the
  response, \<open>None\<close> when none arrives.
\<close>

definition api_request ::
  "('i request_config \<Rightarrow> 'r response option) \<Rightarrow> 'i browser \<Rightarrow> 'i request_config
     \<Rightarrow> 'i browser \<times> 'r outcome" where
  "api_request server b config =
     (let config' = request_interceptor (localStorage b) config;
          b1 = b\<lparr>sent := sent b @ [config']\<rparr>;
          out = (case server config' of
                   None \<Rightarrow> Rejected (AxiosError None)
                 | Some r \<Rightarrow> settle r)
      in response_interceptor b1 out)"

subsection \<open>itemService\<close>

text \<open>
  Each operation awaits one request. A rejection is thrown out of the \<^verbatim>\<open>async\<close>
  function, that is, its promise is rejected with the same error (\<open>Inl\<close>); otherwise
  it resolves (\<open>Inr\<close>) with \<^verbatim>\<open>response.data\<close>, and \<open>deleteItem\<close> with nothing.
\<close>

definition response_data :: "'i browser \<times> 'r outcome \<Rightarrow> 'i browser \<times> ('r axios_error + 'r)" where
  "response_data p =
     (case snd p of
        Fulfilled r \<Rightarrow> (fst p, Inr (data r))
      | Rejected e \<Rightarrow> (fst p, Inl e))"

definition createItem ::
  "('i request_config \<Rightarrow> 'r response option) \<Rightarrow> 'i browser \<Rightarrow> 'i
     \<Rightarrow> 'i browser \<times> ('r axios_error + 'r)" where
  "createItem server b item =
     response_data (api_request server b (api_config POST (ascii ''/items'') (Some item)))"

definition getItem ::
  "('i request_config \<Rightarrow> 'r response option) \<Rightarrow> 'i browser \<Rightarrow> js_string
     \<Rightarrow> 'i browser \<times> ('r axios_error + 'r)" where
  "getItem server b id' =
     response_data (api_request server b (api_config GET (ascii ''/items/'' @ id') None))"

definition getAllItems ::
  "('i request_config \<Rightarrow> 'r response option) \<Rightarrow> 'i browser
     \<Rightarrow> 'i browser \<times> ('r axios_error + 'r)" where
  "getAllItems server b =
     response_data (api_request server b (api_config GET (ascii ''/items/all'') None))"

definition listItems ::
  "('i request_config \<Rightarrow> 'r response option) \<Rightarrow> 'i browser
     \<Rightarrow> 'i browser \<times> ('r axios_error + 'r)" where
  "listItems server b =
     response_data (api_request server b (api_config GET (ascii ''/items'') None))"

definition updateItem ::
  "('i request_config \<Rightarrow> 'r response option) \<Rightarrow> 'i browser \<Rightarrow> js_string \<Rightarrow> 'i
     \<Rightarrow> 'i browser \<times> ('r axios_error + 'r)" where
  "updateItem server b id' item =
     response_data
       (api_request server b (api_config PUT (ascii ''/items/'' @ id') (Some item)))"

definition deleteItem ::
  "('i request_config \<Rightarrow> 'r response option) \<Rightarrow> 'i browser \<Rightarrow> js_string
     \<Rightarrow> 'i browser \<times> ('r axios_error + unit)" where
  "deleteItem server b id' =
     (let p = api_request server b (api_config DELETE (ascii ''/items/'' @ id') None) in
      case snd p of
        Fulfilled r \<Rightarrow> (fst p, Inr ())
      | Rejected e \<Rightarrow> (fst p, Inl e))"

section \<open>Literals\<close>

lemma of_char_word_inj: "(of_char c :: code_unit) = of_char d \<Longrightarrow> c = d"
proof -
  assume h: "(of_char c :: code_unit) = of_char d"
  have "unat (of_nat (of_char c) :: code_unit) = unat (of_nat (of_char d) :: code_unit)"
    using h by (simp add: of_nat_of_char)
  moreover have "(of_char c :: nat) < 2 ^ 16" "(of_char d :: nat) < 2 ^ 16"
    by (rule less_trans [OF nat_of_char_less_256], simp)+
  ultimately have "(of_char c :: nat) = of_char d"
    by (simp add: unat_of_nat)
  then show "c = d" by simp
qed

lemma ascii_eq_iff [simp]: "ascii s = ascii t \<longleftrightarrow> s = t"
  unfolding ascii_def
  by (rule inj_map_eq_map) (auto intro!: injI dest: of_char_word_inj)

section \<open>Properties of the client\<close>

lemma remove_session_entries:
  "storage_removeItem
     (storage_removeItem (storage_removeItem st (ascii ''accessToken'')) (ascii ''refreshToken''))
     (ascii ''idToken'')
   = st(ascii ''accessToken'' := None, ascii ''refreshToken'' := None, ascii ''idToken'' := None)"
  by (simp add: storage_removeItem_def)

text \<open>
  C1. A response with status 401 reaches the response interceptor as a rejection that
  carries it. After the interceptor has run, \<^verbatim>\<open>accessToken\<close>, \<^verbatim>\<open>refreshToken\<close> and
  \<^verbatim>\<open>idToken\<close> are absent from storage, one navigation to \<^verbatim>\<open>/signin\<close> has been started,
  and the promise is rejected with the original error: both the reset and the
  rejection happen. A request of the instance that is answered with that response ends
  in the same state, and the operation that awaits it is rejected with the same error.
\<close>

theorem unauthorized_resets_session_and_rejects:
  assumes "status r = 401"
  shows "settle r = Rejected (AxiosError (Some r))
    \<and> storage_getItem (localStorage (fst (response_interceptor b (settle r))))
          (ascii ''accessToken'') = None
    \<and> storage_getItem (localStorage (fst (response_interceptor b (settle r))))
          (ascii ''refreshToken'') = None
    \<and> storage_getItem (localStorage (fst (response_interceptor b (settle r))))
          (ascii ''idToken'') = None
    \<and> navigations (fst (response_interceptor b (settle r))) = navigations b @ [ascii ''/signin'']
    \<and> snd (response_interceptor b (settle r)) = Rejected (AxiosError (Some r))
    \<and> response_interceptor b (settle r) =
        (b\<lparr>localStorage := (localStorage b)(ascii ''accessToken'' := None,
               ascii ''refreshToken'' := None, ascii ''idToken'' := None),
           navigations := navigations b @ [ascii ''/signin'']\<rparr>,
         Rejected (AxiosError (Some r)))
    \<and> (server (request_interceptor (localStorage (b0 :: 'i browser)) c) = Some r \<longrightarrow>
         localStorage (fst (api_request server b0 c)) =
           (localStorage b0)(ascii ''accessToken'' := None,
              ascii ''refreshToken'' := None, ascii ''idToken'' := None)
         \<and> navigations (fst (api_request server b0 c)) = navigations b0 @ [ascii ''/signin'']
         \<and> snd (api_request server b0 c) = Rejected (AxiosError (Some r))
         \<and> snd (response_data (api_request server b0 c)) = Inl (AxiosError (Some r)))"
  using assms
  by (simp add: response_interceptor_def settle_def response_rejected_def is_401_def
      remove_session_entries storage_getItem_def api_request_def Let_def response_data_def)

theorem unauthorized_resets_session_and_rejects_witness:
  "status \<lparr>status = 401, data = ()\<rparr> = 401
   \<and> storage_getItem (localStorage (fst (response_interceptor
        \<lparr>localStorage = [ascii ''accessToken'' \<mapsto> ascii ''a'', ascii ''refreshToken'' \<mapsto> ascii ''r'',
                         ascii ''idToken'' \<mapsto> ascii ''i''],
         navigations = [], sent = ([] :: unit request_config list)\<rparr>
        (settle \<lparr>status = 401, data = ()\<rparr>)))) (ascii ''accessToken'') = None
   \<and> storage_getItem (localStorage (fst (response_interceptor
        \<lparr>localStorage = [ascii ''accessToken'' \<mapsto> ascii ''a'', ascii ''refreshToken'' \<mapsto> ascii ''r'',
                         ascii ''idToken'' \<mapsto> ascii ''i''],
         navigations = [], sent = ([] :: unit request_config list)\<rparr>
        (settle \<lparr>status = 401, data = ()\<rparr>)))) (ascii ''refreshToken'') = None
   \<and> storage_getItem (localStorage (fst (response_interceptor
        \<lparr>localStorage = [ascii ''accessToken'' \<mapsto> ascii ''a'', ascii ''refreshToken'' \<mapsto> ascii ''r'',
                         ascii ''idToken'' \<mapsto> ascii ''i''],
         navigations = [], sent = ([] :: unit request_config list)\<rparr>
        (settle \<lparr>status = 401, data = ()\<rparr>)))) (ascii ''idToken'') = None
   \<and> navigations (fst (response_interceptor
        \<lparr>localStorage = [ascii ''accessToken'' \<mapsto> ascii ''a'', ascii ''refreshToken'' \<mapsto> ascii ''r'',
                         ascii ''idToken'' \<mapsto> ascii ''i''],
         navigations = [], sent = ([] :: unit request_config list)\<rparr>
        (settle \<lparr>status = 401, data = ()\<rparr>))) = [ascii ''/signin'']
   \<and> snd (response_interceptor
        \<lparr>localStorage = [ascii ''accessToken'' \<mapsto> ascii ''a'', ascii ''refreshToken'' \<mapsto> ascii ''r'',
                         ascii ''idToken'' \<mapsto> ascii ''i''],
         navigations = [], sent = ([] :: unit request_config list)\<rparr>
        (settle \<lparr>status = 401, data = ()\<rparr>))
      = Rejected (AxiosError (Some \<lparr>status = 401, data = ()\<rparr>))
   \<and> snd (getItem (\<lambda>c. Some \<lparr>status = 401, data = ()\<rparr>)
        \<lparr>localStorage = [ascii ''idToken'' \<mapsto> ascii ''i''],
         navigations = [], sent = ([] :: unit request_config list)\<rparr> (ascii ''42''))
      = Inl (AxiosError (Some \<lparr>status = 401, data = ()\<rparr>))"
proof -
  have h: "status \<lparr>status = 401, data = ()\<rparr> = 401" by simp
  show ?thesis
    using unauthorized_resets_session_and_rejects [OF h, where
        b = "\<lparr>localStorage = [ascii ''accessToken'' \<mapsto> ascii ''a'',
              ascii ''refreshToken'' \<mapsto> ascii ''r'', ascii ''idToken'' \<mapsto> ascii ''i''],
            navigations = [], sent = ([] :: unit request_config list)\<rparr>"
        and ?b0.0 = "\<lparr>localStorage = [ascii ''idToken'' \<mapsto> ascii ''i''],
            navigations = [], sent = ([] :: unit request_config list)\<rparr>"
        and server = "\<lambda>c. Some \<lparr>status = 401, data = ()\<rparr>"
        and c = "api_config GET (ascii ''/items/'' @ ascii ''42'') None"]
    by (auto simp add: getItem_def)
qed

text \<open>
  C2, as stated, fails. When the entry \<^verbatim>\<open>idToken\<close> is present and holds the empty
  string, the guard \<^verbatim>\<open>if (token)\<close> is false for it and no header is set, where the
  claim asks for the header \<^verbatim>\<open>Bearer\<close> followed by a space. When only the entry
  \<^verbatim>\<open>accessToken\<close> is present, a token is in storage and no header is set either.
\<close>

theorem empty_token_sets_no_header:
  "storage_getItem [ascii ''idToken'' \<mapsto> []] (ascii ''idToken'') = Some []
   \<and> request_config.headers
        (request_interceptor [ascii ''idToken'' \<mapsto> []]
           (api_config GET (ascii ''/items'') (None :: unit option)))
        (ascii ''Authorization'') = None
   \<and> request_config.headers
        (request_interceptor [ascii ''idToken'' \<mapsto> []]
           (api_config GET (ascii ''/items'') (None :: unit option)))
        (ascii ''Authorization'') \<noteq> Some (ascii ''Bearer '' @ [])
   \<and> storage_getItem [ascii ''accessToken'' \<mapsto> ascii ''abc''] (ascii ''accessToken'')
        = Some (ascii ''abc'')
   \<and> request_config.headers
        (request_interceptor [ascii ''accessToken'' \<mapsto> ascii ''abc'']
           (api_config GET (ascii ''/items'') (None :: unit option)))
        (ascii ''Authorization'') = None"
  by (simp add: storage_getItem_def request_interceptor_def truthy_def api_config_def)

text \<open>
  C2, amended. If the entry \<^verbatim>\<open>idToken\<close> holds a string \<open>t\<close> that is not empty, the
  request interceptor sets the Authorization header to \<^verbatim>\<open>Bearer\<close>, a space and \<open>t\<close>,
  and changes nothing else of the request. If the entry is absent or empty, the
  interceptor returns the request as it is, and a request composed by the instance has
  no Authorization header.
\<close>

theorem bearer_header_iff_nonempty_token:
  "(storage_getItem st (ascii ''idToken'') = Some t \<and> t \<noteq> [] \<longrightarrow>
      request_interceptor st c
        = c\<lparr>request_config.headers :=
              (request_config.headers c)(ascii ''Authorization'' \<mapsto> ascii ''Bearer '' @ t)\<rparr>
      \<and> request_config.headers (request_interceptor st c) (ascii ''Authorization'')
          = Some (ascii ''Bearer '' @ t))
   \<and> (storage_getItem st (ascii ''idToken'') = None
        \<or> storage_getItem st (ascii ''idToken'') = Some [] \<longrightarrow>
      request_interceptor st c = c
      \<and> request_config.headers (request_interceptor st (api_config m u d))
            (ascii ''Authorization'') = None)"
  by (auto simp add: request_interceptor_def truthy_def api_config_def)

theorem bearer_header_iff_nonempty_token_witness:
  "storage_getItem [ascii ''idToken'' \<mapsto> ascii ''abc''] (ascii ''idToken'') = Some (ascii ''abc'')
   \<and> ascii ''abc'' \<noteq> []
   \<and> request_config.headers
      (request_interceptor [ascii ''idToken'' \<mapsto> ascii ''abc'']
         (api_config GET (ascii ''/items'') (None :: unit option)))
      (ascii ''Authorization'') = Some (ascii ''Bearer abc'')
   \<and> storage_getItem Map.empty (ascii ''idToken'') = None
   \<and> request_config.headers
      (request_interceptor Map.empty (api_config GET (ascii ''/items'') (None :: unit option)))
      (ascii ''Authorization'') = None"
proof -
  have a: "storage_getItem [ascii ''idToken'' \<mapsto> ascii ''abc''] (ascii ''idToken'')
             = Some (ascii ''abc'') \<and> ascii ''abc'' \<noteq> []"
    by (simp add: storage_getItem_def ascii_def)
  have b: "storage_getItem Map.empty (ascii ''idToken'') = None"
    by (simp add: storage_getItem_def)
  have c: "ascii ''Bearer '' @ ascii ''abc'' = ascii ''Bearer abc''"
    by (simp add: ascii_def)
  show ?thesis
    using a b c
      bearer_header_iff_nonempty_token [where st = "[ascii ''idToken'' \<mapsto> ascii ''abc'']"
        and t = "ascii ''abc''"
        and c = "api_config GET (ascii ''/items'') (None :: unit option)"
        and m = GET and u = "ascii ''/items''" and d = "None :: unit option"]
      bearer_header_iff_nonempty_token [where st = Map.empty and t = "[]"
        and c = "api_config GET (ascii ''/items'') (None :: unit option)"
        and m = GET and u = "ascii ''/items''" and d = "None :: unit option"]
    by auto
qed

text \<open>
  C7. A fulfilled response, a failure without a response and a failure whose response
  has a status other than 401 leave the response interceptor as they entered it, and
  the browser state (stored tokens, navigations) is unchanged.
\<close>

theorem other_statuses_pass_through:
  "response_interceptor b (Fulfilled r) = (b, Fulfilled r)
   \<and> response_interceptor b (Rejected (AxiosError None)) = (b, Rejected (AxiosError None))
   \<and> (status r \<noteq> 401 \<longrightarrow>
        response_interceptor b (Rejected (AxiosError (Some r)))
          = (b, Rejected (AxiosError (Some r))))
   \<and> (status r \<noteq> 401 \<longrightarrow> response_interceptor b (settle r) = (b, settle r))"
  by (simp add: response_interceptor_def settle_def response_rejected_def is_401_def
      response_fulfilled_def)

theorem other_statuses_pass_through_witness:
  "status \<lparr>status = 404, data = ()\<rparr> \<noteq> 401
   \<and> response_interceptor
        \<lparr>localStorage = [ascii ''idToken'' \<mapsto> ascii ''i''], navigations = [],
         sent = ([] :: unit request_config list)\<rparr>
        (settle \<lparr>status = 404, data = ()\<rparr>)
      = (\<lparr>localStorage = [ascii ''idToken'' \<mapsto> ascii ''i''], navigations = [], sent = []\<rparr>,
         Rejected (AxiosError (Some \<lparr>status = 404, data = ()\<rparr>)))"
proof -
  have h: "status \<lparr>status = 404, data = ()\<rparr> \<noteq> 401" by simp
  have s: "settle \<lparr>status = 404, data = ()\<rparr>
             = Rejected (AxiosError (Some \<lparr>status = 404, data = ()\<rparr>))"
    by (simp add: settle_def)
  show ?thesis
    using h s other_statuses_pass_through [where
        b = "\<lparr>localStorage = [ascii ''idToken'' \<mapsto> ascii ''i''], navigations = [],
          sent = ([] :: unit request_config list)\<rparr>"
        and r = "\<lparr>status = 404, data = ()\<rparr>"]
    by auto
qed

text \<open>
  C8. \<open>deleteItem\<close> hands exactly one request to the network, with the verb DELETE and
  the path \<^verbatim>\<open>/items/\<close> followed by the id, and when the answer has a status from 200 to
  299 its promise resolves with no value.
\<close>

theorem deleteItem_one_request:
  "sent (fst (deleteItem server b i))
     = sent b @ [request_interceptor (localStorage b)
                   (api_config DELETE (ascii ''/items/'' @ i) None)]
   \<and> request_method (request_interceptor (localStorage b)
                (api_config DELETE (ascii ''/items/'' @ i) None)) = DELETE
   \<and> url (request_interceptor (localStorage b)
             (api_config DELETE (ascii ''/items/'' @ i) None)) = ascii ''/items/'' @ i
   \<and> (server (request_interceptor (localStorage b)
                 (api_config DELETE (ascii ''/items/'' @ i) None)) = Some r
        \<and> 200 \<le> status r \<and> status r < 300
       \<longrightarrow> snd (deleteItem server b i) = Inr ())"
  by (auto simp add: deleteItem_def api_request_def Let_def response_interceptor_def settle_def
      response_rejected_def request_interceptor_def api_config_def split: option.splits)

theorem deleteItem_one_request_witness:
  "sent (fst (deleteItem (\<lambda>c. Some \<lparr>status = 204, data = ()\<rparr>)
            \<lparr>localStorage = Map.empty, navigations = [],
             sent = ([] :: unit request_config list)\<rparr> (ascii ''42'')))
     = [api_config DELETE (ascii ''/items/42'') None]
   \<and> snd (deleteItem (\<lambda>c. Some \<lparr>status = 204, data = ()\<rparr>)
            \<lparr>localStorage = Map.empty, navigations = [],
             sent = ([] :: unit request_config list)\<rparr> (ascii ''42'')) = Inr ()"
proof -
  have c: "ascii ''/items/'' @ ascii ''42'' = ascii ''/items/42''"
    by (simp add: ascii_def)
  have i: "request_interceptor Map.empty (api_config DELETE (ascii ''/items/42'') (None :: unit option))
             = api_config DELETE (ascii ''/items/42'') None"
    by (simp add: request_interceptor_def storage_getItem_def truthy_def)
  show ?thesis
    using c i deleteItem_one_request [where server = "\<lambda>c. Some \<lparr>status = 204, data = ()\<rparr>"
        and b = "\<lparr>localStorage = Map.empty, navigations = [],
                  sent = ([] :: unit request_config list)\<rparr>"
        and i = "ascii ''42''" and r = "\<lparr>status = 204, data = ()\<rparr>"]
    by auto
qed

text \<open>
  C10. The request that leaves the request interceptor depends on storage through the
  entry \<^verbatim>\<open>idToken\<close> only: two storage states that agree on it give the same request,
  whatever they hold under \<^verbatim>\<open>accessToken\<close> and \<^verbatim>\<open>refreshToken\<close>.
\<close>

theorem request_depends_on_idToken_only:
  assumes "st1 (ascii ''idToken'') = st2 (ascii ''idToken'')"
  shows "request_interceptor st1 c = request_interceptor st2 c"
  using assms by (simp add: request_interceptor_def storage_getItem_def)

theorem request_depends_on_idToken_only_witness:
  "[ascii ''idToken'' \<mapsto> ascii ''i'', ascii ''accessToken'' \<mapsto> ascii ''a1'',
       ascii ''refreshToken'' \<mapsto> ascii ''r1''] (ascii ''idToken'')
     = [ascii ''idToken'' \<mapsto> ascii ''i'', ascii ''accessToken'' \<mapsto> ascii ''a2'']
         (ascii ''idToken'')
   \<and> request_interceptor
      [ascii ''idToken'' \<mapsto> ascii ''i'', ascii ''accessToken'' \<mapsto> ascii ''a1'',
       ascii ''refreshToken'' \<mapsto> ascii ''r1'']
      (api_config GET (ascii ''/items'') (None :: unit option))
   = request_interceptor
      [ascii ''idToken'' \<mapsto> ascii ''i'', ascii ''accessToken'' \<mapsto> ascii ''a2'']
      (api_config GET (ascii ''/items'') (None :: unit option))"
proof -
  have h: "[ascii ''idToken'' \<mapsto> ascii ''i'', ascii ''accessToken'' \<mapsto> ascii ''a1'',
            ascii ''refreshToken'' \<mapsto> ascii ''r1''] (ascii ''idToken'')
           = [ascii ''idToken'' \<mapsto> ascii ''i'', ascii ''accessToken'' \<mapsto> ascii ''a2'']
               (ascii ''idToken'')"
    by simp
  show ?thesis
    using h request_depends_on_idToken_only [where
        ?st1.0 = "[ascii ''idToken'' \<mapsto> ascii ''i'', ascii ''accessToken'' \<mapsto> ascii ''a1'',
            ascii ''refreshToken'' \<mapsto> ascii ''r1'']"
        and ?st2.0 = "[ascii ''idToken'' \<mapsto> ascii ''i'', ascii ''accessToken'' \<mapsto> ascii ''a2'']"
        and c = "api_config GET (ascii ''/items'') (None :: unit option)", OF h]
    by blast
qed

section \<open>Properties of the envelope builder\<close>

text \<open>
  C3. The headers of a success response and of an error response are the same value,
  whatever the payload, the error and the two status codes.
\<close>

theorem headers_independent_of_outcome:
  "proxy_result.headers (successResponse env p s)
     = proxy_result.headers (errorResponse env e m s2)"
  by (simp add: successResponse_def errorResponse_def)

text \<open>
  C6, as stated, fails: with \<^verbatim>\<open>ALLOWED_ORIGIN\<close> not set, loading the configuration
  module throws nothing and exports a header set whose allowed origin is undefined.
\<close>

theorem missing_origin_does_not_fail:
  "Map.empty (ascii ''ALLOWED_ORIGIN'') = (None :: js_string option)
   \<and> config_module Map.empty =
       Inr [(ascii ''Access-Control-Allow-Origin'', JUndefined),
            (ascii ''Access-Control-Allow-Credentials'', JBoolean False),
            (ascii ''Access-Control-Allow-Headers'', JString (ascii ''Content-Type, Authorization'')),
            (ascii ''Access-Control-Allow-Methods'',
               JString (ascii ''GET, POST, PUT, DELETE, OPTIONS'')),
            (ascii ''Content-Type'', JString (ascii ''application/json''))]
   \<and> config_module Map.empty \<noteq> Inl StartupError"
  by (simp add: config_module_def corsOption_def)

text \<open>
  C6, amended. Loading the configuration module never fails. When \<^verbatim>\<open>ALLOWED_ORIGIN\<close>
  is not set, the allowed origin of the exported header set is undefined, and both
  builders return that header set; when it is set, the allowed origin is its value.
\<close>

theorem config_module_never_fails:
  "config_module env = Inr (corsOption env)
   \<and> (env (ascii ''ALLOWED_ORIGIN'') = None \<longrightarrow>
        map_of (corsOption env) (ascii ''Access-Control-Allow-Origin'') = Some JUndefined
        \<and> map_of (proxy_result.headers (successResponse env p s))
            (ascii ''Access-Control-Allow-Origin'') = Some JUndefined
        \<and> map_of (proxy_result.headers (errorResponse env e m s2))
            (ascii ''Access-Control-Allow-Origin'') = Some JUndefined)
   \<and> (env (ascii ''ALLOWED_ORIGIN'') = Some origin \<longrightarrow>
        map_of (corsOption env) (ascii ''Access-Control-Allow-Origin'') = Some (JString origin))"
  by (simp add: config_module_def corsOption_def successResponse_def errorResponse_def)

theorem config_module_never_fails_witness:
  "Map.empty (ascii ''ALLOWED_ORIGIN'') = (None :: js_string option)
   \<and> config_module Map.empty = Inr (corsOption Map.empty)
   \<and> map_of (corsOption Map.empty) (ascii ''Access-Control-Allow-Origin'') = Some JUndefined
   \<and> [ascii ''ALLOWED_ORIGIN'' \<mapsto> ascii ''https://app.example''] (ascii ''ALLOWED_ORIGIN'')
        = Some (ascii ''https://app.example'')
   \<and> map_of (corsOption [ascii ''ALLOWED_ORIGIN'' \<mapsto> ascii ''https://app.example''])
        (ascii ''Access-Control-Allow-Origin'') = Some (JString (ascii ''https://app.example''))"
proof -
  have a: "Map.empty (ascii ''ALLOWED_ORIGIN'') = (None :: js_string option)" by simp
  have b: "[ascii ''ALLOWED_ORIGIN'' \<mapsto> ascii ''https://app.example''] (ascii ''ALLOWED_ORIGIN'')
             = Some (ascii ''https://app.example'')" by simp
  show ?thesis
    using a b config_module_never_fails [where env = Map.empty and origin = "[]"
        and p = JNull and s = None and e = "[]" and m = "[]" and ?s2.0 = None]
      config_module_never_fails [where
        env = "[ascii ''ALLOWED_ORIGIN'' \<mapsto> ascii ''https://app.example'']"
        and origin = "ascii ''https://app.example''"
        and p = JNull and s = None and e = "[]" and m = "[]" and ?s2.0 = None]
    by auto
qed

text \<open>
  C9. With the status argument left out, \<open>successResponse\<close> answers status 200 and
  \<open>errorResponse\<close> status 500.
\<close>

theorem default_status_codes:
  "statusCode (successResponse env p None) = 200
   \<and> statusCode (errorResponse env e m None) = 500"
  by (simp add: successResponse_def errorResponse_def)

section \<open>Reading back what the serializer wrote\<close>

subsection \<open>Strings\<close>

lemma unat_lt_65536: "unat (c :: code_unit) < 65536"
  using unsigned_less [of c, where 'a = nat] by simp

lemma unat_hex_digit: "d < 16 \<Longrightarrow> unat (hex_digit d) = (if d < 10 then 48 + d else 87 + d)"
  by (simp add: hex_digit_def unat_of_nat del: of_nat_add)

lemma hex_value_hex_digit: "d < 16 \<Longrightarrow> hex_value (hex_digit d) = Some d"
  by (simp add: hex_value_def word_le_nat_alt unat_hex_digit)

lemma nibbles:
  "((n div 4096 * 16 + n div 256 mod 16) * 16 + n div 16 mod 16) * 16 + n mod 16 = (n::nat)"
proof -
  have a: "n div 4096 = n div 256 div 16" by (simp add: div_mult2_eq [symmetric])
  have b: "n div 256 = n div 16 div 16" by (simp add: div_mult2_eq [symmetric])
  have "n div 4096 * 16 + n div 256 mod 16 = n div 256"
    unfolding a by simp
  moreover have "n div 256 * 16 + n div 16 mod 16 = n div 16"
    unfolding b by simp
  ultimately show ?thesis by simp
qed

lemma hex4_unicode_escape:
  "hex4 (hex_digit (unat c div 4096)) (hex_digit (unat c div 256 mod 16))
        (hex_digit (unat c div 16 mod 16)) (hex_digit (unat c mod 16)) = Some c"
proof -
  have a: "unat c div 4096 < 16" using unat_lt_65536 [of c] by simp
  have "hex4 (hex_digit (unat c div 4096)) (hex_digit (unat c div 256 mod 16))
          (hex_digit (unat c div 16 mod 16)) (hex_digit (unat c mod 16))
        = Some (of_nat (((unat c div 4096 * 16 + unat c div 256 mod 16) * 16
                  + unat c div 16 mod 16) * 16 + unat c mod 16))"
    unfolding hex4_def by (simp only: hex_value_hex_digit a mod_less_divisor zero_less_numeral
        prod.case option.case)
  then show ?thesis
    by (simp only: nibbles of_nat_unat) simp
qed

lemma parse_unicode_escape:
  "parse_chars (unicode_escape c @ t) = cons_result c (parse_chars t)"
  by (simp add: unicode_escape_def hex4_unicode_escape)

lemma parse_plain_unit:
  "c \<noteq> 0x22 \<Longrightarrow> c \<noteq> 0x5C \<Longrightarrow> \<not> c < 0x20
     \<Longrightarrow> parse_chars (c # t) = cons_result c (parse_chars t)"
  by simp

lemma parse_escape_unit:
  "parse_chars (escape_unit c @ t) = cons_result c (parse_chars t)"
  by (simp add: escape_unit_def parse_unicode_escape unescape_def)

lemma surrogate_plain:
  "is_lead c \<or> is_trail c \<Longrightarrow> c \<noteq> 0x22 \<and> c \<noteq> 0x5C \<and> \<not> c < 0x20"
  by (auto simp add: is_lead_def is_trail_def word_le_nat_alt word_less_nat_alt)

lemma parse_quote_units:
  "parse_chars (quote_units s @ 0x22 # rest) = Some (s, rest)"
proof (induction s rule: quote_units.induct)
  case 1
  show ?case by simp
next
  case (2 c)
  show ?case by (simp add: parse_escape_unit cons_result_def)
next
  case (3 c d ds)
  show ?case
  proof (cases "is_lead c \<and> is_trail d")
    case True
    then have ih: "parse_chars (quote_units ds @ 0x22 # rest) = Some (ds, rest)"
      using 3 by simp
    have "parse_chars (quote_units (c # d # ds) @ 0x22 # rest)
            = cons_result c (cons_result d (parse_chars (quote_units ds @ 0x22 # rest)))"
      using True surrogate_plain [of c] surrogate_plain [of d]
      by (simp add: parse_plain_unit del: parse_chars.simps)
    then show ?thesis
      by (simp add: ih cons_result_def)
  next
    case False
    then have ih: "parse_chars (quote_units (d # ds) @ 0x22 # rest) = Some (d # ds, rest)"
      using 3 by simp
    have "parse_chars (quote_units (c # d # ds) @ 0x22 # rest)
            = cons_result c (parse_chars (quote_units (d # ds) @ 0x22 # rest))"
    proof -
      have "quote_units (c # d # ds) = escape_unit c @ quote_units (d # ds)"
        using False by auto
      then show ?thesis
        by (simp only: append_assoc parse_escape_unit)
    qed
    then show ?thesis
      by (simp add: ih cons_result_def)
  qed
qed

subsection \<open>Numbers\<close>

declare find_exponent.simps [simp del]
declare find_decimal_exponent.simps [simp del]

lemma double_value_bounds:
  assumes "is_double m e0" and "e < e0" and "- 1074 \<le> e"
  shows "2 powi (e + 53) \<le> double_value m e0"
proof -
  have m: "2 ^ 52 \<le> m" using assms by (auto simp add: is_double_def)
  have "(2::rat) powi (e + 53) \<le> 2 powi (e0 + 52)"
    using assms(2) by (intro power_int_increasing) auto
  also have "\<dots> = 2 ^ 52 * 2 powi e0"
    by (simp add: power_int_add)
  also have "\<dots> \<le> of_nat m * 2 powi e0"
  proof -
    have "(2::rat) ^ 52 \<le> of_nat m"
      using m by (metis of_nat_le_iff of_nat_numeral of_nat_power)
    then show ?thesis by (intro mult_right_mono) auto
  qed
  finally show ?thesis by (simp add: double_value_def)
qed

lemma double_value_less:
  assumes "is_double m e0"
  shows "double_value m e0 < 2 powi (e0 + 53)"
proof -
  have "m < 2 ^ 53" using assms by (simp add: is_double_def)
  then have "(of_nat m :: rat) < 2 ^ 53"
    by (metis of_nat_less_iff of_nat_numeral of_nat_power)
  then have "of_nat m * 2 powi e0 < 2 ^ 53 * (2::rat) powi e0"
    by (intro mult_strict_right_mono) auto
  then show ?thesis by (simp add: double_value_def power_int_add mult.commute)
qed

lemma find_exponent_double:
  assumes "is_double m e0" and "e \<le> e0" and "- 1074 \<le> e"
  shows "find_exponent (double_value m e0) e (2 powi (e + 53)) = e0"
  using assms(2,3)
proof (induction "nat (e0 - e)" arbitrary: e)
  case 0
  then have e: "e = e0" by simp
  have "e0 \<le> 971" using assms(1) by (simp add: is_double_def)
  then show ?case
    unfolding e by (subst find_exponent.simps) (simp add: double_value_less [OF assms(1)])
next
  case (Suc d)
  then have lt: "e < e0" by simp
  have le: "e0 \<le> 971" using assms(1) by (simp add: is_double_def)
  have ge: "\<not> double_value m e0 < 2 powi (e + 53)"
    using double_value_bounds [OF assms(1) lt Suc.prems(2)] by simp
  have p: "2 * (2::rat) powi (e + 53) = 2 powi (e + 1 + 53)"
    by (simp add: power_int_add)
  have "find_exponent (double_value m e0) e (2 powi (e + 53))
          = find_exponent (double_value m e0) (e + 1) (2 powi (e + 1 + 53))"
    using lt le ge by (subst find_exponent.simps) (simp add: p)
  also have "\<dots> = e0"
    using Suc.hyps(2) lt Suc.prems(2) by (intro Suc.hyps(1)) auto
  finally show ?case .
qed

lemma round_half_even_of_nat: "round_half_even (of_nat m) = m"
  by (simp add: round_half_even_def)

lemma round_double_double:
  assumes "is_double m e"
  shows "round_double neg (double_value m e) = Finite neg m e"
proof -
  have e: "- 1074 \<le> e" "e \<le> 971" and m: "m < 2 ^ 53"
    using assms by (simp_all add: is_double_def)
  have f: "find_exponent (double_value m e) (- 1074) (2 powi (- 1021)) = e"
    using find_exponent_double [OF assms, of "- 1074"] e by simp
  have q: "double_value m e / 2 powi e = of_nat m"
    by (simp add: double_value_def)
  show ?thesis
    unfolding round_double_def f Let_def q round_half_even_of_nat
    using e m by simp
qed


lemma closest_mem: "closest q cs = Some c \<Longrightarrow> c \<in> set cs"
  by (auto simp add: closest_def split: list.splits if_splits)

lemma shortest_reads_back: "shortest m e k fuel = Some c \<Longrightarrow> reads_back m e c"
proof (induction fuel arbitrary: k)
  case 0
  then show ?case by simp
next
  case (Suc fuel)
  show ?case
  proof (cases "closest (double_value m e)
                  (filter (reads_back m e) (candidates (double_value m e) k))")
    case None
    with Suc show ?thesis by simp
  next
    case (Some d)
    with Suc.prems have "d = c" by simp
    with closest_mem [OF Some] show ?thesis by simp
  qed
qed

lemma exact_decimal_value:
  "decimal_value (exact_decimal m e) = double_value m e"
proof (cases "0 \<le> e")
  case True
  then show ?thesis
    by (simp add: exact_decimal_def decimal_value_def double_value_def power_int_def)
next
  case False
  define j where "j = nat (- e)"
  have e: "e = - int j" using False by (simp add: j_def)
  have p: "(10::rat) ^ j = 2 ^ j * 5 ^ j"
    by (simp flip: power_mult_distrib)
  have "(of_nat (m * 5 ^ j) :: rat) * inverse (10 ^ j) = of_nat m * inverse (2 ^ j)"
    unfolding p by (simp add: field_simps)
  then have "(of_nat (m * 5 ^ j) :: rat) * 10 powi (- int j) = of_nat m * 2 powi (- int j)"
    by (simp only: power_int_minus power_int_of_nat)
  moreover have "exact_decimal m e
      = (m * 5 ^ j, int (length (decimal (m * 5 ^ j))) + e)"
    using False by (simp add: exact_decimal_def j_def)
  ultimately show ?thesis
    unfolding decimal_value_def double_value_def by (simp add: e)
qed

lemma exact_decimal_pos: "0 < m \<Longrightarrow> 0 < fst (exact_decimal m e)"
  by (simp add: exact_decimal_def)

lemma digits_of_double_reads_back:
  assumes "is_double m e" and "0 < m"
  shows "reads_back m e (digits_of_double m e)"
proof (cases "shortest m e 1 17")
  case None
  then show ?thesis
    using exact_decimal_pos [OF assms(2), of e] round_double_double [OF assms(1), of False]
    by (simp add: digits_of_double_def reads_back_def exact_decimal_value)
next
  case (Some c)
  with shortest_reads_back [OF Some] show ?thesis
    by (simp add: digits_of_double_def)
qed

lemma round_double_sign:
  "round_double False q = Finite False m e \<Longrightarrow> round_double neg q = Finite neg m e"
  by (auto simp add: round_double_def Let_def infinity_def split: if_splits)

declare decimal.simps [simp del]

lemma unat_digit: "k < 10 \<Longrightarrow> unat (of_nat (48 + k) :: code_unit) = 48 + k"
  by (simp add: unat_of_nat del: of_nat_add)

lemma is_digit_digit: "k < 10 \<Longrightarrow> is_digit (of_nat (48 + k))"
  by (simp add: is_digit_def word_le_nat_alt unat_digit del: of_nat_add)

lemma digit_eq_zero: "k < 10 \<Longrightarrow> (of_nat (48 + k) :: code_unit) = 0x30 \<longleftrightarrow> k = 0"
  by (simp add: word_unat_eq_iff unat_digit del: of_nat_add)

lemma decimal_not_Nil: "decimal n \<noteq> []"
  by (subst decimal.simps) simp

lemma decimal_digits: "c \<in> set (decimal n) \<Longrightarrow> is_digit c"
proof (induction n arbitrary: c rule: decimal.induct)
  case (1 n)
  show ?case
  proof (cases "n < 10")
    case True
    with 1(2) show ?thesis
      by (subst (asm) decimal.simps) (simp add: is_digit_digit del: of_nat_add)
  next
    case False
    with 1 show ?thesis
      by (subst (asm) (2) decimal.simps) (auto simp add: is_digit_digit simp del: of_nat_add)
  qed
qed

lemma digits_value_snoc: "digits_value (ds @ [c]) = 10 * digits_value ds + (unat c - 48)"
  by (simp add: digits_value_def)

lemma digits_value_Nil: "digits_value [] = 0"
  by (simp add: digits_value_def)

lemma digits_value_append:
  "digits_value (a @ b) = digits_value a * 10 ^ length b + digits_value b"
proof (induction b rule: rev_induct)
  case Nil
  show ?case by (simp add: digits_value_Nil)
next
  case (snoc c b)
  have "digits_value (a @ b @ [c]) = 10 * digits_value (a @ b) + (unat c - 48)"
    using digits_value_snoc [of "a @ b" c] by simp
  then show ?case
    by (simp add: snoc digits_value_snoc algebra_simps)
qed

lemma digits_value_zero_Cons: "digits_value (0x30 # ds) = digits_value ds"
  using digits_value_append [of "[0x30]" ds] by (simp add: digits_value_def)

lemma digits_value_zeros: "digits_value (replicate j 0x30 @ ds) = digits_value ds"
  by (induction j) (simp_all add: digits_value_zero_Cons)

lemma digits_value_decimal: "digits_value (decimal n) = n"
proof (induction n rule: decimal.induct)
  case (1 n)
  show ?case
  proof (cases "n < 10")
    case True
    then show ?thesis
      by (subst decimal.simps) (simp add: digits_value_def unat_digit del: of_nat_add)
  next
    case False
    with 1 show ?thesis
      by (subst decimal.simps) (simp add: digits_value_snoc unat_digit del: of_nat_add)
  qed
qed

lemma hd_decimal_zero: "hd (decimal n) = 0x30 \<longleftrightarrow> n = 0"
proof (induction n rule: decimal.induct)
  case (1 n)
  show ?case
  proof (cases "n < 10")
    case True
    then show ?thesis
      by (subst decimal.simps) (simp add: digit_eq_zero del: of_nat_add)
  next
    case False
    then have "hd (decimal n) = hd (decimal (n div 10))"
      by (subst decimal.simps) (simp add: decimal_not_Nil)
    with False 1 show ?thesis by simp
  qed
qed

lemma span_digits:
  assumes "\<forall>c\<in>set ds. is_digit c" and "rest = [] \<or> \<not> is_digit (hd rest)"
  shows "takeWhile is_digit (ds @ rest) = ds" and "dropWhile is_digit (ds @ rest) = rest"
proof -
  have r: "takeWhile is_digit rest = []" "dropWhile is_digit rest = rest"
    using assms(2) by (cases rest; simp)+
  show "takeWhile is_digit (ds @ rest) = ds"
    using assms(1) by (simp add: takeWhile_append2 r)
  show "dropWhile is_digit (ds @ rest) = rest"
    using assms(1) by (simp add: dropWhile_append2 r)
qed

lemma not_digit_simps [simp]:
  "\<not> is_digit 0x2E" "\<not> is_digit 0x65" "\<not> is_digit 0x45" "\<not> is_digit 0x2D" "\<not> is_digit 0x2B"
  "\<not> is_digit 0x2C" "\<not> is_digit 0x5D" "\<not> is_digit 0x7D" "is_digit 0x30"
  by (simp_all add: is_digit_def)

lemma delimited_not_digit: "delimited rest \<Longrightarrow> rest = [] \<or> \<not> is_digit (hd rest)"
  by (auto simp add: delimited_def)

lemma parse_fraction_none:
  "rest = [] \<or> hd rest \<noteq> 0x2E \<Longrightarrow> parse_fraction rest = Some ([], rest)"
  by (auto simp add: parse_fraction_def)

lemma parse_fraction_some:
  assumes "\<forall>c\<in>set fs. is_digit c" and "fs \<noteq> []" and "rest = [] \<or> \<not> is_digit (hd rest)"
  shows "parse_fraction (0x2E # fs @ rest) = Some (fs, rest)"
  using assms(2) by (simp add: parse_fraction_def span_digits [OF assms(1,3)])

lemma parse_exponent_none:
  "rest = [] \<or> (hd rest \<noteq> 0x65 \<and> hd rest \<noteq> 0x45) \<Longrightarrow> parse_exponent rest = Some (0, rest)"
  by (auto simp add: parse_exponent_def)

lemma parse_exponent_some:
  assumes "rest = [] \<or> \<not> is_digit (hd rest)"
  shows "parse_exponent (0x65 # (if x < 0 then 0x2D else 0x2B) # decimal (nat \<bar>x\<bar>) @ rest)
           = Some (x, rest)"
proof -
  define n where "n = nat \<bar>x\<bar>"
  have d: "\<forall>c\<in>set (decimal n). is_digit c"
    using decimal_digits by blast
  have "parse_exponent (0x65 # (if x < 0 then 0x2D else 0x2B) # decimal n @ rest)
          = Some (if x < 0 then - int n else int n, rest)"
    by (simp add: parse_exponent_def Let_def span_digits [OF d assms] decimal_not_Nil
        digits_value_decimal)
  moreover have "(if x < 0 then - int n else int n) = x"
    by (simp add: n_def)
  ultimately show ?thesis
    unfolding n_def by simp
qed

lemma parse_unsigned_text:
  assumes ds: "\<forall>c\<in>set ds. is_digit c" "ds \<noteq> []" "hd ds = 0x30 \<longrightarrow> length ds = 1"
    and u: "u = [] \<or> \<not> is_digit (hd u)"
    and f: "parse_fraction u = Some (fs, r)"
    and x: "parse_exponent r = Some (x, rest)"
  shows "parse_unsigned neg (ds @ u)
         = Some (round_double neg
                   (of_nat (digits_value (ds @ fs)) * 10 powi (x - int (length fs))), rest)"
proof -
  have lead: "\<not> (ds = [] \<or> hd ds = 0x30 \<and> 1 < length ds)"
    using ds(2,3) by auto
  show ?thesis
    unfolding parse_unsigned_def Let_def span_digits [OF ds(1) u] f
    using lead by (simp add: x)
qed

lemma parse_number_sign:
  assumes "t \<noteq> []" and "is_digit (hd t)"
  shows "parse_number ((if neg then [0x2D] else []) @ t) = parse_unsigned neg t"
proof -
  have "hd t \<noteq> 0x2D" using assms(2) by auto
  then show ?thesis
    using assms(1) by (cases t) (auto simp add: parse_number_def)
qed


lemma delimited_tail:
  assumes "delimited rest"
  shows "rest = [] \<or> \<not> is_digit (hd rest)"
    and "parse_fraction rest = Some ([], rest)"
    and "parse_exponent rest = Some (0, rest)"
  using assms
  by (auto simp add: delimited_def intro!: parse_fraction_none parse_exponent_none)

lemma decimal_pos:
  assumes "0 < s"
  shows "\<forall>c\<in>set (decimal s). is_digit c" and "decimal s \<noteq> []" and "hd (decimal s) \<noteq> 0x30"
  using assms decimal_digits decimal_not_Nil hd_decimal_zero [of s] by auto

lemma parse_digits_zeros:
  assumes "0 < s" and "delimited rest"
  shows "parse_unsigned neg ((decimal s @ replicate j 0x30) @ rest)
           = Some (round_double neg (of_nat s * 10 ^ j), rest)"
proof -
  let ?ds = "decimal s @ replicate j 0x30"
  have ds: "\<forall>c\<in>set ?ds. is_digit c" "?ds \<noteq> []" "hd ?ds = 0x30 \<longrightarrow> length ?ds = 1"
    using decimal_pos [OF assms(1)] by auto
  have v: "digits_value (?ds @ []) = s * 10 ^ j"
    using digits_value_append [of "decimal s" "replicate j 0x30"]
      digits_value_zeros [of j "[]"]
    by (simp add: digits_value_decimal digits_value_Nil)
  show ?thesis
    using parse_unsigned_text [OF ds delimited_tail [OF assms(2)], of neg]
    by (simp only: v) simp
qed

lemma parse_digits_point:
  assumes "0 < s" and "delimited rest" and "0 < j" and "j < length (decimal s)"
  shows "parse_unsigned neg (take j (decimal s) @ 0x2E # drop j (decimal s) @ rest)
           = Some (round_double neg
                     (of_nat s * 10 powi (int j - int (length (decimal s)))), rest)"
proof -
  let ?D = "decimal s"
  let ?ds = "take j ?D" and ?fs = "drop j ?D"
  have ds: "\<forall>c\<in>set ?ds. is_digit c" "?ds \<noteq> []" "hd ?ds = 0x30 \<longrightarrow> length ?ds = 1"
    using decimal_pos [OF assms(1)] assms(3) by (auto dest: in_set_takeD simp add: hd_take)
  have fs: "\<forall>c\<in>set ?fs. is_digit c" "?fs \<noteq> []"
    using decimal_pos(1) [OF assms(1)] assms(4) by (auto dest: in_set_dropD)
  have u: "0x2E # ?fs @ rest = [] \<or> \<not> is_digit (hd (0x2E # ?fs @ rest))" by simp
  have f: "parse_fraction (0x2E # ?fs @ rest) = Some (?fs, rest)"
    by (rule parse_fraction_some [OF fs delimited_tail(1) [OF assms(2)]])
  have v: "digits_value (?ds @ ?fs) = s"
    by (simp add: digits_value_decimal)
  have l: "0 - int (length ?fs) = int j - int (length ?D)"
    using assms(4) by simp
  show ?thesis
    using parse_unsigned_text [OF ds u f delimited_tail(3) [OF assms(2)], of neg]
    by (simp only: v l)
qed

lemma parse_zero_point:
  assumes "0 < s" and "delimited rest"
  shows "parse_unsigned neg ((0x30 # 0x2E # replicate j 0x30 @ decimal s) @ rest)
           = Some (round_double neg
                     (of_nat s * 10 powi (- int j - int (length (decimal s)))), rest)"
proof -
  let ?D = "decimal s"
  let ?fs = "replicate j 0x30 @ ?D"
  have ds: "\<forall>c\<in>set [0x30]. is_digit c" "[0x30 :: code_unit] \<noteq> []"
    "hd [0x30 :: code_unit] = 0x30 \<longrightarrow> length [0x30 :: code_unit] = 1"
    by simp_all
  have fs: "\<forall>c\<in>set ?fs. is_digit c" "?fs \<noteq> []"
    using decimal_pos [OF assms(1)] by auto
  have u: "0x2E # ?fs @ rest = [] \<or> \<not> is_digit (hd (0x2E # ?fs @ rest))" by simp
  have f: "parse_fraction (0x2E # ?fs @ rest) = Some (?fs, rest)"
    by (rule parse_fraction_some [OF fs delimited_tail(1) [OF assms(2)]])
  have v: "digits_value ([0x30] @ ?fs) = s"
    by (simp add: digits_value_zero_Cons digits_value_zeros digits_value_decimal)
  have l: "0 - int (length ?fs) = - int j - int (length ?D)"
    by simp
  show ?thesis
    using parse_unsigned_text [OF ds u f delimited_tail(3) [OF assms(2)], of neg]
    by (simp only: v l) simp
qed

lemma parse_exponent_form:
  assumes "0 < s" and "delimited rest"
  shows "parse_unsigned neg
           (((if int (length (decimal s)) = 1 then decimal s
              else hd (decimal s) # 0x2E # tl (decimal s))
             @ 0x65 # (if x < 0 then 0x2D else 0x2B) # decimal (nat \<bar>x\<bar>)) @ rest)
           = Some (round_double neg
                     (of_nat s * 10 powi (x + 1 - int (length (decimal s)))), rest)"
proof -
  let ?D = "decimal s"
  let ?E = "0x65 # (if x < 0 then 0x2D else 0x2B) # decimal (nat \<bar>x\<bar>) @ rest"
  have e: "parse_exponent ?E = Some (x, rest)"
    by (rule parse_exponent_some [OF delimited_tail(1) [OF assms(2)]])
  show ?thesis
  proof (cases "length ?D = 1")
    case True
    have ds: "\<forall>c\<in>set ?D. is_digit c" "?D \<noteq> []" "hd ?D = 0x30 \<longrightarrow> length ?D = 1"
      using decimal_pos [OF assms(1)] by auto
    have u: "?E = [] \<or> \<not> is_digit (hd ?E)" by simp
    have f: "parse_fraction ?E = Some ([], ?E)"
      by (rule parse_fraction_none) simp
    have v: "digits_value (?D @ []) = s" by (simp add: digits_value_decimal)
    have l: "x - int (length ([] :: js_string)) = x + 1 - int (length ?D)"
      using True by simp
    show ?thesis
      using parse_unsigned_text [OF ds u f e, of neg] True
      by (simp only: v l) simp
  next
    case False
    then have len: "2 \<le> length ?D"
      using decimal_not_Nil [of s] by (cases ?D) (auto simp add: Suc_le_eq)
    let ?fs = "tl ?D"
    have D: "?D = hd ?D # ?fs" using decimal_not_Nil [of s] by simp
    have ds: "\<forall>c\<in>set [hd ?D]. is_digit c" "[hd ?D] \<noteq> []"
      "hd [hd ?D] = 0x30 \<longrightarrow> length [hd ?D] = 1"
      using decimal_pos [OF assms(1)] by (auto simp add: hd_in_set)
    have fs: "\<forall>c\<in>set ?fs. is_digit c" "?fs \<noteq> []"
      using decimal_pos(1) [OF assms(1)] len list.set_sel(2) [OF decimal_not_Nil, of _ s]
      by (cases ?D; auto)+
    have t: "?E = [] \<or> \<not> is_digit (hd ?E)" by simp
    have u: "0x2E # ?fs @ ?E = [] \<or> \<not> is_digit (hd (0x2E # ?fs @ ?E))" by simp
    have f: "parse_fraction (0x2E # ?fs @ ?E) = Some (?fs, ?E)"
      by (rule parse_fraction_some [OF fs t])
    have v: "digits_value ([hd ?D] @ ?fs) = s"
      using D by (simp add: digits_value_decimal)
    have l: "x - int (length ?fs) = x + 1 - int (length ?D)"
      using len by simp
    have "parse_unsigned neg ([hd ?D] @ 0x2E # ?fs @ ?E)
            = Some (round_double neg (of_nat s * 10 powi (x + 1 - int (length ?D))), rest)"
      using parse_unsigned_text [OF ds u f e, of neg] by (simp only: v l)
    then show ?thesis
      using False by simp
  qed
qed


lemma parse_format_decimal:
  assumes "0 < s" and "delimited rest"
  shows "parse_unsigned neg (format_decimal s n @ rest)
           = Some (round_double neg (decimal_value (s, n)), rest)"
proof -
  let ?D = "decimal s"
  let ?k = "int (length ?D)"
  have k: "0 < ?k" using decimal_not_Nil [of s] by simp
  then have k': "\<not> ?k \<le> n" if "n \<le> 0" for n using that by linarith
  consider (digits) "?k \<le> n" "n \<le> 21"
    | (point) "0 < n" "n < ?k" "n \<le> 21"
    | (zero) "- 6 < n" "n \<le> 0"
    | (exponent) "\<not> (?k \<le> n \<and> n \<le> 21)" "\<not> (0 < n \<and> n \<le> 21)" "\<not> (- 6 < n \<and> n \<le> 0)"
    by linarith
  then show ?thesis
  proof cases
    case digits
    define j where "j = nat (n - ?k)"
    have n: "n - ?k = int j" using digits by (simp add: j_def)
    have "format_decimal s n = ?D @ replicate j 0x30"
      using digits by (simp add: format_decimal_def Let_def j_def)
    then show ?thesis
      using parse_digits_zeros [OF assms, of neg j]
      by (simp add: decimal_value_def n)
  next
    case point
    define j where "j = nat n"
    have n: "n = int j" and j: "0 < j" "j < length ?D"
      using point by (simp_all add: j_def)
    have "format_decimal s n = take j ?D @ 0x2E # drop j ?D"
      using point by (simp add: format_decimal_def Let_def j_def)
    then show ?thesis
      using parse_digits_point [OF assms j, of neg]
      by (simp add: decimal_value_def n)
  next
    case zero
    define j where "j = nat (- n)"
    have n: "n = - int j" using zero by (simp add: j_def)
    have "format_decimal s n = 0x30 # 0x2E # replicate j 0x30 @ ?D"
      using zero k' [OF zero(2)] by (simp add: format_decimal_def Let_def j_def)
    then show ?thesis
      using parse_zero_point [OF assms, of neg j]
      by (simp add: decimal_value_def n)
  next
    case exponent
    have "format_decimal s n
            = (if ?k = 1 then ?D else hd ?D # 0x2E # tl ?D)
              @ 0x65 # (if n - 1 < 0 then 0x2D else 0x2B) # decimal (nat \<bar>n - 1\<bar>)"
      by (simp only: format_decimal_def Let_def exponent if_False)
    then show ?thesis
      using parse_exponent_form [OF assms, of neg "n - 1"]
      by (simp add: decimal_value_def)
  qed
qed

lemma format_decimal_start:
  assumes "0 < s"
  shows "format_decimal s n \<noteq> [] \<and> is_digit (hd (format_decimal s n))"
proof -
  have d: "decimal s \<noteq> []" "is_digit (hd (decimal s))"
    using decimal_pos [OF assms] by (auto simp add: hd_in_set)
  have t: "0 < j \<Longrightarrow> hd (take j (decimal s)) = hd (decimal s)" for j
    by (simp add: hd_take)
  show ?thesis
    using d by (auto simp add: format_decimal_def Let_def hd_append t)
qed

lemma parse_zero:
  assumes "delimited rest"
  shows "parse_number (ascii ''0'' @ rest) = Some (Finite False 0 (- 1074), rest)"
proof -
  have ds: "\<forall>c\<in>set [0x30]. is_digit c" "[0x30 :: code_unit] \<noteq> []"
    "hd [0x30 :: code_unit] = 0x30 \<longrightarrow> length [0x30 :: code_unit] = 1"
    by simp_all
  have z: "is_double 0 (- 1074)" by (simp add: is_double_def)
  have r: "round_double False 0 = Finite False 0 (- 1074)"
    using round_double_double [OF z, of False] by (simp add: double_value_def)
  have "parse_unsigned False ([0x30] @ rest) = Some (Finite False 0 (- 1074), rest)"
    using parse_unsigned_text [OF ds delimited_tail [OF assms], of False]
    by (simp add: digits_value_def r)
  then show ?thesis
    using parse_number_sign [of "0x30 # rest" False] by (simp add: ascii_def)
qed

lemma parse_number_to_string:
  assumes "is_double m e" and "delimited rest"
  shows "parse_number (number_to_string (Finite neg m e) @ rest)
           = Some (if m = 0 then Finite False 0 (- 1074) else Finite neg m e, rest)"
proof (cases "m = 0")
  case True
  then show ?thesis
    using parse_zero [OF assms(2)] by (simp add: number_to_string_def)
next
  case False
  obtain s n where c: "digits_of_double m e = (s, n)" by (cases "digits_of_double m e")
  have rb: "0 < s" "round_double False (decimal_value (s, n)) = Finite False m e"
    using digits_of_double_reads_back [OF assms(1)] False
    by (simp_all add: c reads_back_def)
  have start: "format_decimal s n @ rest \<noteq> []" "is_digit (hd (format_decimal s n @ rest))"
    using format_decimal_start [OF rb(1), of n] by simp_all
  have "parse_number ((if neg then [0x2D] else []) @ format_decimal s n @ rest)
          = Some (round_double neg (decimal_value (s, n)), rest)"
    using parse_number_sign [OF start, of neg] parse_format_decimal [OF rb(1) assms(2), of neg n]
    by simp
  then show ?thesis
    using False by (simp add: number_to_string_def c round_double_sign [OF rb(2)])
qed

lemma number_to_string_start:
  "number_to_string (Finite neg m e) \<noteq> []
   \<and> (hd (number_to_string (Finite neg m e)) = 0x2D
      \<or> is_digit (hd (number_to_string (Finite neg m e))))"
proof (cases "m = 0")
  case True
  then show ?thesis by (simp add: number_to_string_def ascii_def)
next
  case False
  show ?thesis
  proof (cases "0 < fst (digits_of_double m e)")
    case True
    then show ?thesis
      using False format_decimal_start [OF True, of "snd (digits_of_double m e)"]
      by (simp add: number_to_string_def)
  next
    case z: False
    have "format_decimal 0 n \<noteq> [] \<and> is_digit (hd (format_decimal 0 n))" for n
    proof -
      have d: "decimal 0 = [0x30]" by (subst decimal.simps) simp
      show ?thesis
        by (simp add: format_decimal_def Let_def d)
    qed
    then show ?thesis
      using False z by (simp add: number_to_string_def)
  qed
qed

subsection \<open>Values\<close>

lemma reads_asI:
  "(\<And>k rest. length t \<le> Suc k \<Longrightarrow> delimited rest \<Longrightarrow> parse_value (Suc k) (t @ rest) = Some (v, rest))
   \<Longrightarrow> t \<noteq> [] \<Longrightarrow> reads_as t v"
  unfolding reads_as_def
proof (intro allI impI)
  fix k rest
  assume a: "\<And>k rest. length t \<le> Suc k \<Longrightarrow> delimited rest \<Longrightarrow> parse_value (Suc k) (t @ rest) = Some (v, rest)"
    and ne: "t \<noteq> []" and b: "length t \<le> k \<and> delimited rest"
  then obtain m where "k = Suc m" by (cases k) auto
  with a b show "parse_value k (t @ rest) = Some (v, rest)" by simp
qed

lemma reads_null: "reads_as (ascii ''null'') JNull"
  by (rule reads_asI) (simp_all add: ascii_def)

lemma reads_true: "reads_as (ascii ''true'') (JBoolean True)"
  by (rule reads_asI) (simp_all add: ascii_def)

lemma reads_false: "reads_as (ascii ''false'') (JBoolean False)"
  by (rule reads_asI) (simp_all add: ascii_def)

lemma reads_string: "reads_as (QuoteJSONString s) (JString s)"
  by (rule reads_asI) (simp_all add: QuoteJSONString_def parse_quote_units del: parse_chars.simps)

lemma serialize_None_iff: "serialize v = None \<longleftrightarrow> omitted v"
  by (cases v) (simp_all add: omitted_def)

lemma parse_value_number:
  assumes "s \<noteq> []" and "hd s = 0x2D \<or> is_digit (hd s)"
  shows "parse_value (Suc k) s
           = (case parse_number s of None \<Rightarrow> None | Some (x, r) \<Rightarrow> Some (JNumber x, r))"
proof -
  obtain c cs where s: "s = c # cs" using assms(1) by (cases s) auto
  have c: "c = 0x2D \<or> (0x30 \<le> c \<and> c \<le> 0x39)"
    using assms(2) s by (simp add: is_digit_def)
  then have "c \<noteq> 0x5B" "c \<noteq> 0x7B" "c \<noteq> 0x22" "c \<noteq> 0x6E" "c \<noteq> 0x74" "c \<noteq> 0x66"
    by (auto simp add: word_le_nat_alt)
  then show ?thesis
    unfolding s by (auto simp add: ascii_def take_Cons')
qed

lemma is_double_zero: "is_double 0 e \<Longrightarrow> e = - 1074"
  by (simp add: is_double_def)

lemma reads_number:
  assumes "is_double m e"
  shows "reads_as (number_to_string (Finite neg m e)) (JNumber (Finite (neg \<and> m \<noteq> 0) m e))"
proof (rule reads_asI)
  show "number_to_string (Finite neg m e) \<noteq> []" using number_to_string_start by simp
next
  fix k rest
  assume d: "delimited rest"
  let ?t = "number_to_string (Finite neg m e)"
  have "parse_value (Suc k) (?t @ rest)
          = (case parse_number (?t @ rest) of
               None \<Rightarrow> None
             | Some (x, r) \<Rightarrow> Some (JNumber x, r))"
    using number_to_string_start [of neg m e] by (intro parse_value_number) auto
  then show "parse_value (Suc k) (?t @ rest)
               = Some (JNumber (Finite (neg \<and> m \<noteq> 0) m e), rest)"
    using is_double_zero [of e] assms
    by (auto simp add: parse_number_to_string [OF assms d])
qed

lemma is_digit_not_ws: "is_digit c \<Longrightarrow> \<not> is_ws c \<and> c \<noteq> 0x5D"
  by (auto simp add: is_digit_def is_ws_def word_le_nat_alt)

lemma serialize_start:
  assumes "serialize v = Some t"
  shows "t \<noteq> [] \<and> \<not> is_ws (hd t) \<and> hd t \<noteq> 0x5D"
proof (cases v)
  case (JNumber n)
  show ?thesis
  proof (cases n)
    case (Finite neg m e)
    with JNumber assms have t: "t = number_to_string (Finite neg m e)" by simp
    show ?thesis
      using number_to_string_start [of neg m e] is_digit_not_ws [of "hd t"]
      unfolding t by (auto simp add: is_ws_def)
  qed (use JNumber assms in \<open>auto simp add: ascii_def is_ws_def\<close>)
qed (use assms in \<open>auto simp add: ascii_def is_ws_def QuoteJSONString_def split: if_splits\<close>)

lemma skip_ws_start: "t \<noteq> [] \<Longrightarrow> \<not> is_ws (hd t) \<Longrightarrow> skip_ws (t @ r) = t @ r"
  by (cases t) (simp_all add: skip_ws_def)

lemma skip_ws_Cons: "\<not> is_ws c \<Longrightarrow> skip_ws (c # r) = c # r"
  by (simp add: skip_ws_def)

subsection \<open>Arrays\<close>

lemma join_comma_Cons:
  "join_comma (t # ts) = t @ (if ts = [] then [] else 0x2C # join_comma ts)"
  by (cases ts) simp_all

lemma reads_asD:
  "reads_as t v \<Longrightarrow> length t \<le> k \<Longrightarrow> delimited rest \<Longrightarrow> parse_value k (t @ rest) = Some (v, rest)"
  by (simp add: reads_as_def)

lemma delimited_simps [simp]:
  "delimited []" "delimited (0x2C # r)" "delimited (0x5D # r)" "delimited (0x7D # r)"
  by (simp_all add: delimited_def)

lemma not_ws_punctuation [simp]:
  "\<not> is_ws 0x2C" "\<not> is_ws 0x5D" "\<not> is_ws 0x7D" "\<not> is_ws 0x3A" "\<not> is_ws 0x22"
  by (simp_all add: is_ws_def)

lemma element_reads:
  assumes "\<And>t. serialize v = Some t \<Longrightarrow> reads_as t (json_image v)"
  shows "reads_as (case serialize v of None \<Rightarrow> ascii ''null'' | Some t \<Rightarrow> t)
           (if omitted v then JNull else json_image v)"
proof (cases "serialize v")
  case None
  then have "omitted v" using serialize_None_iff [of v] by simp
  with None show ?thesis by (simp add: reads_null)
next
  case (Some t)
  then have "\<not> omitted v" using serialize_None_iff [of v] by simp
  with Some assms [OF Some] show ?thesis by simp
qed

lemma element_start:
  "(case serialize v of None \<Rightarrow> ascii ''null'' | Some t \<Rightarrow> t) \<noteq> []
   \<and> \<not> is_ws (hd (case serialize v of None \<Rightarrow> ascii ''null'' | Some t \<Rightarrow> t))
   \<and> hd (case serialize v of None \<Rightarrow> ascii ''null'' | Some t \<Rightarrow> t) \<noteq> 0x5D"
  using serialize_start [of v]
  by (cases "serialize v") (auto simp add: ascii_def is_ws_def)

lemma serialize_elements_Nil_iff: "serialize_elements vs = [] \<longleftrightarrow> vs = []"
  by (cases vs) simp_all

lemma parse_elements_step:
  assumes e: "reads_as e w" and m: "length e \<le> m"
  shows "parse_elements (Suc m) (e @ 0x5D # rest) = Some ([w], rest)"
    and "parse_elements (Suc m) (e @ 0x2C # tail) = cons_result w (parse_elements m (skip_ws tail))"
  by (simp_all add: reads_asD [OF e m] skip_ws_Cons)

lemma parse_serialized_elements:
  assumes "\<And>v t. v \<in> set vs \<Longrightarrow> serialize v = Some t \<Longrightarrow> reads_as t (json_image v)"
    and "vs \<noteq> []"
    and "length (join_comma (serialize_elements vs)) < k"
  shows "parse_elements k (join_comma (serialize_elements vs) @ 0x5D # rest)
           = Some (json_image_elements vs, rest)"
  using assms
proof (induction vs arbitrary: k)
  case Nil
  then show ?case by simp
next
  case (Cons v vs)
  let ?e = "case serialize v of None \<Rightarrow> ascii ''null'' | Some t \<Rightarrow> t"
  let ?w = "if omitted v then JNull else json_image v"
  have e: "reads_as ?e ?w"
    by (rule element_reads) (simp add: Cons.prems(1))
  obtain m where k: "k = Suc m" using Cons.prems(3) by (cases k) auto
  show ?case
  proof (cases "vs = []")
    case True
    then have len: "length ?e \<le> m" using Cons.prems(3) k by simp
    show ?thesis
      using True parse_elements_step(1) [OF e len, of rest]
      unfolding k by simp
  next
    case False
    let ?J = "join_comma (serialize_elements vs)"
    have len: "length ?e \<le> m" and len': "length ?J < m"
      using Cons.prems(3) k False
      by (simp_all add: join_comma_Cons serialize_elements_Nil_iff)
    obtain u us where vs: "vs = u # us" using False by (cases vs) auto
    have start: "skip_ws (?J @ 0x5D # rest) = ?J @ 0x5D # rest"
      using element_start [of u]
      unfolding vs by (simp add: join_comma_Cons skip_ws_start del: join_comma.simps)
    have ih: "parse_elements m (?J @ 0x5D # rest) = Some (json_image_elements vs, rest)"
      using Cons.prems(1) False len' by (intro Cons.IH) auto
    have "parse_elements k (join_comma (serialize_elements (v # vs)) @ 0x5D # rest)
            = cons_result ?w (parse_elements m (skip_ws (?J @ 0x5D # rest)))"
      using False parse_elements_step(2) [OF e len, of "?J @ 0x5D # rest"]
      unfolding k by (simp add: join_comma_Cons serialize_elements_Nil_iff)
    then show ?thesis
      by (simp add: start ih cons_result_def)
  qed
qed

subsection \<open>Objects\<close>

lemma parse_members_step:
  assumes t: "reads_as t w" and m: "length t \<le> m" and s: "t \<noteq> []" "\<not> is_ws (hd t)"
  shows "parse_members (Suc m) (QuoteJSONString k @ 0x3A # t @ 0x7D # rest) = Some ([(k, w)], rest)"
    and "parse_members (Suc m) (QuoteJSONString k @ 0x3A # t @ 0x2C # tail)
           = cons_result (k, w) (parse_members m (skip_ws tail))"
  by (simp_all add: QuoteJSONString_def parse_quote_units skip_ws_Cons skip_ws_start [OF s]
      reads_asD [OF t m] del: parse_chars.simps)

lemma members_start:
  "serialize_members ps \<noteq> [] \<Longrightarrow> \<exists>x. join_comma (serialize_members ps) = 0x22 # x"
proof (induction ps)
  case Nil
  then show ?case by simp
next
  case (Cons p ps)
  obtain k v where p: "p = (k, v)" by (cases p)
  show ?case
    using Cons unfolding p
    by (cases "serialize v") (auto simp add: join_comma_Cons QuoteJSONString_def)
qed

lemma members_Nil:
  "serialize_members ps = [] \<Longrightarrow> json_image_members ps = []"
proof (induction ps)
  case Nil
  then show ?case by simp
next
  case (Cons p ps)
  obtain k v where p: "p = (k, v)" by (cases p)
  show ?case
    using Cons unfolding p
    by (cases "serialize v") (auto simp add: serialize_None_iff)
qed

lemma parse_serialized_members:
  assumes "\<And>k v t. (k, v) \<in> set ps \<Longrightarrow> serialize v = Some t \<Longrightarrow> reads_as t (json_image v)"
    and "serialize_members ps \<noteq> []"
    and "length (join_comma (serialize_members ps)) < n"
  shows "parse_members n (join_comma (serialize_members ps) @ 0x7D # rest)
           = Some (json_image_members ps, rest)"
  using assms
proof (induction ps arbitrary: n)
  case Nil
  then show ?case by simp
next
  case (Cons p ps)
  obtain k v where p: "p = (k, v)" by (cases p)
  show ?case
  proof (cases "serialize v")
    case None
    then have v: "omitted v" using serialize_None_iff [of v] by simp
    have "parse_members n (join_comma (serialize_members ps) @ 0x7D # rest)
            = Some (json_image_members ps, rest)"
      using Cons.prems None unfolding p by (intro Cons.IH) auto
    then show ?thesis
      unfolding p using None v by simp
  next
    case (Some t)
    then have v: "\<not> omitted v" using serialize_None_iff [of v] by simp
    have t: "reads_as t (json_image v)"
      using Cons.prems(1) [of k v t] Some unfolding p by simp
    have s: "t \<noteq> []" "\<not> is_ws (hd t)"
      using serialize_start [OF Some] by simp_all
    let ?M = "QuoteJSONString k @ 0x3A # t"
    obtain m where n: "n = Suc m" using Cons.prems(3) by (cases n) auto
    show ?thesis
    proof (cases "serialize_members ps = []")
      case True
      then have len: "length t \<le> m"
        using Cons.prems(3) Some unfolding p n by simp
      show ?thesis
        using True Some v members_Nil [OF True] parse_members_step(1) [OF t len s, of k rest]
        unfolding p n by simp
    next
      case False
      let ?J = "join_comma (serialize_members ps)"
      have len: "length t \<le> m" and len': "length ?J < m"
        using Cons.prems(3) Some False unfolding p n
        by (simp_all add: join_comma_Cons)
      obtain x where x: "?J = 0x22 # x" using members_start [OF False] by auto
      have start: "skip_ws (?J @ 0x7D # rest) = ?J @ 0x7D # rest"
        unfolding x by (simp add: skip_ws_Cons)
      have ih: "parse_members m (?J @ 0x7D # rest) = Some (json_image_members ps, rest)"
        using Cons.prems(1) False len' unfolding p by (intro Cons.IH) auto
      have "parse_members n (join_comma (serialize_members (p # ps)) @ 0x7D # rest)
              = cons_result (k, json_image v) (parse_members m (skip_ws (?J @ 0x7D # rest)))"
        using False Some parse_members_step(2) [OF t len s, of k "?J @ 0x7D # rest"]
        unfolding p n by (simp add: join_comma_Cons)
      then show ?thesis
        unfolding p using v by (simp add: start ih cons_result_def)
    qed
  qed
qed

lemma define_property_fresh:
  "k \<notin> fst ` set obj \<Longrightarrow> define_property obj k v = obj @ [(k, v)]"
  by (induction obj) auto

lemma foldl_define_property_distinct:
  "distinct (map fst (obj @ ms))
     \<Longrightarrow> foldl (\<lambda>obj m. define_property obj (fst m) (snd m)) obj ms = obj @ ms"
proof (induction ms arbitrary: obj)
  case Nil
  then show ?case by simp
next
  case (Cons m ms)
  have "define_property obj (fst m) (snd m) = obj @ [m]"
    using Cons.prems by (simp add: define_property_fresh)
  moreover have "distinct (map fst ((obj @ [m]) @ ms))"
    using Cons.prems by simp
  ultimately show ?case
    using Cons.IH [of "obj @ [m]"] by simp
qed

lemma object_of_members_distinct:
  "distinct (map fst ms) \<Longrightarrow> object_of_members ms = ms"
  using foldl_define_property_distinct [of "[]" ms] by (simp add: object_of_members_def)

lemma json_image_members_keys:
  "(k, w) \<in> set (json_image_members ps) \<Longrightarrow> k \<in> fst ` set ps"
proof (induction ps)
  case Nil
  then show ?case by simp
next
  case (Cons p ps)
  obtain k' v where p: "p = (k', v)" by (cases p)
  show ?case
    using Cons unfolding p by (cases "omitted v") auto
qed

lemma json_image_members_distinct:
  "distinct (map fst ps) \<Longrightarrow> distinct (map fst (json_image_members ps))"
proof (induction ps)
  case Nil
  then show ?case by simp
next
  case (Cons p ps)
  obtain k v where p: "p = (k, v)" by (cases p)
  have "k \<notin> fst ` set (json_image_members ps)"
    using Cons.prems json_image_members_keys [of k _ ps] unfolding p by auto
  then show ?case
    using Cons unfolding p by simp
qed

lemma wf_elements_member: "wf_elements vs \<Longrightarrow> v \<in> set vs \<Longrightarrow> wf_value v"
  by (induction vs) auto

lemma wf_members_member: "wf_members ps \<Longrightarrow> (k, v) \<in> set ps \<Longrightarrow> wf_value v"
  by (induction ps) auto

subsection \<open>Every serialized value\<close>

lemma parse_value_array:
  assumes "s \<noteq> []" "\<not> is_ws (hd s)" "hd s \<noteq> 0x5D"
  shows "parse_value (Suc n) (0x5B # s)
           = (case parse_elements n s of None \<Rightarrow> None | Some (vs, r) \<Rightarrow> Some (JArray vs, r))"
proof -
  obtain d r where s: "s = d # r" using assms(1) by (cases s) auto
  show ?thesis
    using assms unfolding s by (simp add: skip_ws_Cons)
qed

lemma parse_value_object:
  "parse_value (Suc n) (0x7B # 0x22 # s)
     = (case parse_members n (0x22 # s) of
          None \<Rightarrow> None
        | Some (ms, r) \<Rightarrow> Some (JObject (object_of_members ms), r))"
  by (simp add: skip_ws_Cons)

lemma reads_array:
  assumes "\<And>v t. v \<in> set vs \<Longrightarrow> serialize v = Some t \<Longrightarrow> reads_as t (json_image v)"
  shows "reads_as (0x5B # join_comma (serialize_elements vs) @ [0x5D]) (JArray (json_image_elements vs))"
proof (rule reads_asI)
  fix k rest
  let ?J = "join_comma (serialize_elements vs)"
  assume len: "length (0x5B # ?J @ [0x5D]) \<le> Suc k"
  show "parse_value (Suc k) ((0x5B # ?J @ [0x5D]) @ rest)
          = Some (JArray (json_image_elements vs), rest)"
  proof (cases "vs = []")
    case True
    then show ?thesis by (simp add: skip_ws_Cons)
  next
    case False
    then obtain u us where vs: "vs = u # us" by (cases vs) auto
    have start: "?J @ 0x5D # rest \<noteq> []" "\<not> is_ws (hd (?J @ 0x5D # rest))"
      "hd (?J @ 0x5D # rest) \<noteq> 0x5D"
      using element_start [of u]
      unfolding vs by (simp_all add: join_comma_Cons del: join_comma.simps)
    have "length ?J < k" using len by simp
    then have "parse_elements k (?J @ 0x5D # rest) = Some (json_image_elements vs, rest)"
      using assms False by (intro parse_serialized_elements) auto
    then show ?thesis
      using parse_value_array [OF start, of k] by simp
  qed
qed simp

lemma reads_object:
  assumes "\<And>k v t. (k, v) \<in> set ps \<Longrightarrow> serialize v = Some t \<Longrightarrow> reads_as t (json_image v)"
    and "distinct (map fst ps)"
  shows "reads_as (0x7B # join_comma (serialize_members ps) @ [0x7D]) (JObject (json_image_members ps))"
proof (rule reads_asI)
  fix k rest
  let ?J = "join_comma (serialize_members ps)"
  assume len: "length (0x7B # ?J @ [0x7D]) \<le> Suc k"
  show "parse_value (Suc k) ((0x7B # ?J @ [0x7D]) @ rest)
          = Some (JObject (json_image_members ps), rest)"
  proof (cases "serialize_members ps = []")
    case True
    then show ?thesis by (simp add: skip_ws_Cons members_Nil)
  next
    case False
    then obtain x where x: "?J = 0x22 # x" using members_start by blast
    have "length ?J < k" using len by simp
    then have "parse_members k (?J @ 0x7D # rest) = Some (json_image_members ps, rest)"
      using assms(1) False by (intro parse_serialized_members) auto
    then have "parse_value (Suc k) (0x7B # ?J @ 0x7D # rest)
                 = Some (JObject (object_of_members (json_image_members ps)), rest)"
      using parse_value_object [of k "x @ 0x7D # rest"] unfolding x by simp
    then show ?thesis
      by (simp add: object_of_members_distinct json_image_members_distinct assms(2))
  qed
qed simp

lemma reads_serialized:
  "wf_value v \<Longrightarrow> serialize v = Some t \<Longrightarrow> reads_as t (json_image v)"
proof (induction v arbitrary: t)
  case JUndefined
  then show ?case by simp
next
  case JNull
  then show ?case by (auto simp add: reads_null)
next
  case (JBoolean b)
  then show ?case by (cases b) (auto simp add: reads_true reads_false)
next
  case (JNumber n)
  show ?case
  proof (cases n)
    case (Finite neg m e)
    then have "is_double m e" and "t = number_to_string (Finite neg m e)"
      using JNumber by simp_all
    then show ?thesis
      using reads_number [of m e neg] Finite by simp
  qed (use JNumber in \<open>auto simp add: reads_null\<close>)
next
  case (JString s)
  then show ?case by (auto simp add: reads_string)
next
  case JFunction
  then show ?case by simp
next
  case JSymbol
  then show ?case by simp
next
  case (JArray vs)
  have "reads_as (0x5B # join_comma (serialize_elements vs) @ [0x5D])
          (JArray (json_image_elements vs))"
  proof (rule reads_array)
    fix v t
    assume "v \<in> set vs" "serialize v = Some t"
    then show "reads_as t (json_image v)"
      using JArray.IH [of v t] JArray.prems(1) wf_elements_member [of vs v] by simp
  qed
  then show ?case using JArray.prems(2) by auto
next
  case (JObject ps)
  have "reads_as (0x7B # join_comma (serialize_members ps) @ [0x7D])
          (JObject (json_image_members ps))"
  proof (rule reads_object)
    fix k v t
    assume m: "(k, v) \<in> set ps" and s: "serialize v = Some t"
    have "wf_value v" using JObject.prems(1) wf_members_member [OF _ m] by simp
    then show "reads_as t (json_image v)"
      using JObject.IH [of "(k, v)" v t] m s by simp
  next
    show "distinct (map fst ps)" using JObject.prems(1) by simp
  qed
  then show ?case using JObject.prems(2) by auto
qed

lemma skip_ws_Nil: "skip_ws [] = []"
  by (simp add: skip_ws_def)

lemma JSON_parse_serialized:
  assumes "wf_value v" and "serialize v = Some t"
  shows "JSON_parse t = Some (json_image v)"
proof -
  have r: "reads_as t (json_image v)" by (rule reads_serialized [OF assms])
  have s: "skip_ws t = t"
    using serialize_start [OF assms(2)] skip_ws_start [of t "[]"] by simp
  have "parse_value (length t) (t @ []) = Some (json_image v, [])"
    by (rule reads_asD [OF r]) simp_all
  then show ?thesis
    by (simp add: JSON_parse_def s skip_ws_Nil)
qed

lemma json_image_safe:
  "json_safe v \<Longrightarrow> json_image v = v"
  "json_safe_elements vs \<Longrightarrow> json_image_elements vs = vs"
  "json_safe_members ps \<Longrightarrow> json_image_members ps = ps"
proof (induction v and vs and ps rule: json_safe_json_safe_elements_json_safe_members.induct)
qed (auto simp add: omitted_def split: js_number.splits)

section \<open>Properties of the bodies\<close>

lemma deserialize_success:
  assumes "wf_value p" and "\<not> omitted p"
  shows "deserialize_body (successResponse env p s) = Some (json_image p)"
proof -
  obtain t where t: "serialize p = Some t"
    using assms(2) serialize_None_iff [of p] by (cases "serialize p") auto
  show ?thesis
    using JSON_parse_serialized [OF assms(1) t] t
    by (simp add: deserialize_body_def successResponse_def JSON_stringify_def)
qed

lemma wf_error_object:
  "wf_value (JObject [(ascii ''error'', JString e), (ascii ''message'', JString m)])"
  by simp

lemma deserialize_error:
  "deserialize_body (errorResponse env e m s)
     = Some (JObject [(ascii ''error'', JString e), (ascii ''message'', JString m)])"
proof -
  let ?o = "JObject [(ascii ''error'', JString e), (ascii ''message'', JString m)]"
  obtain t where t: "serialize ?o = Some t" by simp
  have "JSON_parse t = Some (json_image ?o)"
    by (rule JSON_parse_serialized [OF wf_error_object t])
  then show ?thesis
    using t by (simp add: deserialize_body_def errorResponse_def JSON_stringify_def omitted_def)
qed

text \<open>
  Apart from the payloads without a serialization, every body is valid JSON, on both
  paths.
\<close>

lemma serialized_body_is_valid_json:
  "(wf_value p \<and> \<not> omitted p \<longrightarrow>
      body (successResponse env p s) = JSON_stringify p
      \<and> valid_json (body (successResponse env p s)))
   \<and> body (errorResponse env e m s2)
       = JSON_stringify (JObject [(ascii ''error'', JString e), (ascii ''message'', JString m)])
   \<and> valid_json (body (errorResponse env e m s2))"
proof -
  have v: "valid_json (body r)" if "deserialize_body r = Some x" for r x
    using that by (cases "body r") (auto simp add: valid_json_def deserialize_body_def)
  show ?thesis
    using v [OF deserialize_success [of p env s]] v [OF deserialize_error [of env e m s2]]
    by (auto simp add: successResponse_def errorResponse_def)
qed

subsection \<open>A text\<close>

text \<open>The body of an error response, computed from the definitions.\<close>

lemma errorResponse_body_example:
  \<open>body (errorResponse env (ascii ''NotFound'') (ascii ''no item'') None)
     = Some (ascii ''{"error":"NotFound","message":"no item"}'')\<close>
  by (simp add: errorResponse_def JSON_stringify_def QuoteJSONString_def ascii_def escape_unit_def
      is_lead_def is_trail_def)

subsection \<open>The claims about the body\<close>

text \<open>
  C4, as stated, fails, and by the design of JSON, which has no text for these values:
  a number that is not finite is written as null, and so is an array element that is
  undefined, a function or a symbol; a property with such a value is left out; negative
  zero is written as 0 and read back as zero. (Equality is that of the values, which
  tells the two zeros apart as \<^verbatim>\<open>Object.is\<close> does.)
\<close>

theorem lossy_payloads_do_not_round_trip:
  "deserialize_body
      (successResponse Map.empty (JObject [(ascii ''price'', JNumber PosInfinity)]) None)
     = Some (JObject [(ascii ''price'', JNull)])
   \<and> deserialize_body
      (successResponse Map.empty (JObject [(ascii ''price'', JNumber PosInfinity)]) None)
     \<noteq> Some (JObject [(ascii ''price'', JNumber PosInfinity)])
   \<and> deserialize_body
      (successResponse Map.empty
        (JArray [JNumber NaN, JNumber NegInfinity, JUndefined, JFunction, JSymbol]) None)
     = Some (JArray [JNull, JNull, JNull, JNull, JNull])
   \<and> deserialize_body
      (successResponse Map.empty
        (JObject [(ascii ''a'', JUndefined), (ascii ''b'', JFunction), (ascii ''c'', JSymbol)])
        None)
     = Some (JObject [])
   \<and> deserialize_body (successResponse Map.empty (JNumber (Finite True 0 (- 1074))) None)
     = Some (JNumber (Finite False 0 (- 1074)))"
  by (simp add: deserialize_success omitted_def is_double_def)

text \<open>
  C4, amended. For every payload that is JSON data, that is null, a boolean, a finite
  number other than negative zero, a string, or an array or a plain object of JSON
  data, deserializing the body of \<open>successResponse\<close> gives the payload back. For every
  error code and message, deserializing the body of \<open>errorResponse\<close> gives the object
  with the properties \<^verbatim>\<open>error\<close> and \<^verbatim>\<open>message\<close>. (\<open>wf_value\<close> says that the value of
  the model is a value of JavaScript: its numbers are binary64 values, its objects
  list no key twice.)
\<close>

theorem body_round_trip:
  "(wf_value p \<and> json_safe p \<longrightarrow> deserialize_body (successResponse env p s) = Some p)
   \<and> deserialize_body (errorResponse env e m s2)
       = Some (JObject [(ascii ''error'', JString e), (ascii ''message'', JString m)])"
proof (intro conjI impI)
  assume a: "wf_value p \<and> json_safe p"
  then have "\<not> omitted p" by (auto simp add: omitted_def)
  with a show "deserialize_body (successResponse env p s) = Some p"
    by (simp add: deserialize_success json_image_safe(1))
next
  show "deserialize_body (errorResponse env e m s2)
          = Some (JObject [(ascii ''error'', JString e), (ascii ''message'', JString m)])"
    by (rule deserialize_error)
qed

text \<open>
  The witness is the item of the specification, with the price 9.99: the binary64
  value next to 9.99 is \<open>5623870034678907 * 2 ^ - 49\<close>.
\<close>

theorem body_round_trip_witness:
  "wf_value (JObject [(ascii ''itemId'', JString (ascii ''x'')),
                      (ascii ''price'', JNumber (Finite False 5623870034678907 (- 49))),
                      (ascii ''category'', JString (ascii ''c''))])
   \<and> json_safe (JObject [(ascii ''itemId'', JString (ascii ''x'')),
                      (ascii ''price'', JNumber (Finite False 5623870034678907 (- 49))),
                      (ascii ''category'', JString (ascii ''c''))])
   \<and> deserialize_body
        (successResponse Map.empty
          (JObject [(ascii ''itemId'', JString (ascii ''x'')),
                    (ascii ''price'', JNumber (Finite False 5623870034678907 (- 49))),
                    (ascii ''category'', JString (ascii ''c''))])
          None)
      = Some (JObject [(ascii ''itemId'', JString (ascii ''x'')),
                      (ascii ''price'', JNumber (Finite False 5623870034678907 (- 49))),
                      (ascii ''category'', JString (ascii ''c''))])"
proof -
  let ?p = "JObject [(ascii ''itemId'', JString (ascii ''x'')),
                      (ascii ''price'', JNumber (Finite False 5623870034678907 (- 49))),
                      (ascii ''category'', JString (ascii ''c''))]"
  have h: "wf_value ?p \<and> json_safe ?p"
    by (simp add: is_double_def)
  show ?thesis
    using h body_round_trip [where p = ?p and env = Map.empty and s = None
        and e = "[]" and m = "[]" and ?s2.0 = None]
    by blast
qed

text \<open>
  C5. The claim is that the body of every envelope is a valid serialized JSON string,
  and the declared result type of both builders says the body is a string. The code
  breaks this on the success path: for the payload undefined (and for a function or a
  symbol) \<^verbatim>\<open>JSON.stringify\<close> returns undefined, so the envelope has no string as its
  body and nothing to deserialize.
\<close>

theorem undefined_payload_has_no_body:
  "body (successResponse env JUndefined s) = None
   \<and> \<not> valid_json (body (successResponse env JUndefined s))
   \<and> deserialize_body (successResponse env JUndefined s) = None
   \<and> body (successResponse env JFunction s) = None
   \<and> body (successResponse env JSymbol s) = None"
  by (simp add: successResponse_def JSON_stringify_def valid_json_def deserialize_body_def)

end
